theory Spec2Isabelle
  imports Complex_Main
begin

section \<open>Numbers\<close>

text \<open>
  Python \<^verbatim>\<open>int\<close> is \<^typ>\<open>int\<close>. A Python \<^verbatim>\<open>float\<close> is a binary64 number, modelled as
  the \<^typ>\<open>real\<close> it denotes. Every float operation of the code returns the exact result
  rounded to the nearest binary64 number, ties to the even significand: \<open>b64\<close> below,
  with 53 significant bits. The exponent is not bounded, so overflow, subnormal numbers,
  infinities and NaN are outside this development. A float literal \<^verbatim>\<open>c\<close> of the code is
  \<open>b64 c\<close>; a literal that is a binary64 number (0.5, 1.0, 1.5, 255.0) is written as
  itself. An \<^verbatim>\<open>int\<close> that meets a float in an operation is converted first, again by
  rounding to nearest. \<^verbatim>\<open>int(x)\<close> on a float truncates toward zero.

  One quantity is kept unrounded: the jittered position (px, py) of a glyph is the real
  number that its expression denotes, so that its distance from the cell center is
  stated over the reals. Everything that is computed from it is rounded again.
\<close>

definition py_int :: "real \<Rightarrow> int" where
  "py_int x = (if 0 \<le> x then \<lfloor>x\<rfloor> else \<lceil>x\<rceil>)"

text \<open>Rounding a real to the nearest integer, a tie to the even one.\<close>

definition round_half_even :: "real \<Rightarrow> int" where
  "round_half_even x =
     (let n = \<lfloor>x\<rfloor>; d = x - real_of_int n
      in if d < 1 / 2 then n else if 1 / 2 < d then n + 1 else if even n then n else n + 1)"

text \<open>
  The binade of a positive real a is the e with 2^e \<le> a < 2^(e + 1). The binary64
  number nearest to x has the sign of x and the magnitude m * 2^(e - 52), for e the
  binade of |x| and m the integer nearest to |x| / 2^(e - 52), which has 53 bits (or is
  2^53, when the magnitude rounds up to the next power of two).
\<close>

text \<open>
  The binade is given by the logarithm; on a given number, the rounding is computed from
  a binade that is checked by its two bounds (lemma \<open>b64_eval\<close>).
\<close>

definition binade :: "real \<Rightarrow> int" where
  "binade a = \<lfloor>log 2 a\<rfloor>"

definition b64 :: "real \<Rightarrow> real" where
  "b64 x = sgn x * (real_of_int (round_half_even (\<bar>x\<bar> * 2 powi (52 - binade \<bar>x\<bar>)))
                     * 2 powi (binade \<bar>x\<bar> - 52))"

section \<open>main.py: luminance to alpha and density\<close>

text \<open>
  \<^verbatim>\<open>
  t = lum / 255.0
  alpha = int(base_alpha + (1.0 - t) * alpha_boost_dark)
  alpha = max(0, min(255, alpha))
  density = (1.0 - t) * density_scale
  return alpha, density
  \<close>
\<close>

definition luminance_to_alpha_and_density :: "real \<Rightarrow> int \<Rightarrow> int \<Rightarrow> real \<Rightarrow> int \<times> real" where
  "luminance_to_alpha_and_density lum base_alpha alpha_boost_dark density_scale =
     (let t = b64 (lum / 255);
          alpha = py_int (b64 (b64 (real_of_int base_alpha)
                               + b64 (b64 (1 - t) * b64 (real_of_int alpha_boost_dark))));
          alpha = max 0 (min 255 alpha);
          density = b64 (b64 (1 - t) * density_scale)
      in (alpha, density))"

text \<open>
  The mapping as the specification words it: the value
  base\_alpha + (1 - lum/255) * alpha\_boost\_dark is rounded to the nearest integer, then
  clamped.
\<close>

definition clamp :: "int \<Rightarrow> int \<Rightarrow> int \<Rightarrow> int" where
  "clamp v lo hi = max lo (min hi v)"

definition spec_alpha :: "real \<Rightarrow> int \<Rightarrow> int \<Rightarrow> int" where
  "spec_alpha lum base_alpha alpha_boost_dark =
     clamp (round (real_of_int base_alpha + (1 - lum / 255) * real_of_int alpha_boost_dark)) 0 255"

text \<open>Truncation toward zero, stated through sign and magnitude.\<close>

definition trunc_toward_zero :: "real \<Rightarrow> int" where
  "trunc_toward_zero x = (if x < 0 then - 1 else 1) * \<lfloor>\<bar>x\<bar>\<rfloor>"

section \<open>Errors\<close>

text \<open>The exceptions the modelled code can raise.\<close>

datatype error = ValueError | IndexError | KeyError

section \<open>main.py: sampling the luminance of a grid cell\<close>

text \<open>
  A grayscale image (Pillow mode \<^verbatim>\<open>L\<close>): its size and its pixel at (column, row).
\<close>

record image_gray =
  im_width :: nat
  im_height :: nat
  getpixel :: "nat \<Rightarrow> nat \<Rightarrow> nat"

text \<open>
  \<^verbatim>\<open>list(img.crop((left, upper, right, lower)).getdata())\<close> as Pillow defines it: the box
  is refused with ValueError when right < left or lower < upper; otherwise the region
  has (right - left) columns and (lower - upper) rows, listed row by row, and a
  position of the box that lies outside the image reads 0.
\<close>

definition crop :: "image_gray \<Rightarrow> int \<times> int \<times> int \<times> int \<Rightarrow> error + nat list" where
  "crop img box =
     (case box of (left, upper, right, lower) \<Rightarrow>
        if right < left \<or> lower < upper then Inl ValueError
        else Inr (concat (map (\<lambda>j. map (\<lambda>i.
               if 0 \<le> i \<and> i < int (im_width img) \<and> 0 \<le> j \<and> j < int (im_height img)
               then getpixel img (nat i) (nat j) else 0) [left..right - 1]) [upper..lower - 1])))"

text \<open>
  \<^verbatim>\<open>
  x2 = min(x + step, img_gray.width)
  y2 = min(y + step, img_gray.height)
  region = img_gray.crop((x, y, x2, y2))
  pixels = list(region.getdata())
  if not pixels:
      return 255.0
  return sum(pixels) / len(pixels)
  \<close>
\<close>

definition sample_region_luminance :: "image_gray \<Rightarrow> int \<Rightarrow> int \<Rightarrow> int \<Rightarrow> error + real" where
  "sample_region_luminance img_gray x y step =
     (let x2 = min (x + step) (int (im_width img_gray));
          y2 = min (y + step) (int (im_height img_gray))
      in case crop img_gray (x, y, x2, y2) of
           Inl e \<Rightarrow> Inl e
         | Inr pixels \<Rightarrow>
             if pixels = [] then Inr 255
             else Inr (b64 (real (sum_list pixels) / real (length pixels))))"

text \<open>
  The pixels of the cell with corner (x, y) and edge step that lie inside the image,
  row by row: the cell clipped to the image bounds on all four sides.
\<close>

definition clipped_cell :: "image_gray \<Rightarrow> int \<Rightarrow> int \<Rightarrow> int \<Rightarrow> nat list" where
  "clipped_cell img x y step =
     concat (map (\<lambda>j. map (\<lambda>i. getpixel img (nat i) (nat j))
       [max 0 x..min (x + step) (int (im_width img)) - 1])
       [max 0 y..min (y + step) (int (im_height img)) - 1])"

text \<open>The arithmetic mean, as the binary64 quotient of the two integers.\<close>

definition mean :: "nat list \<Rightarrow> real" where
  "mean ps = b64 (real (sum_list ps) / real (length ps))"

section \<open>The randomness source\<close>

text \<open>
  The state of Python's global generator is the stream of the floats it will return;
  \<^verbatim>\<open>random.random()\<close> takes the next one. The library promises a value in [0, 1);
  a statement that needs it says so of the draw it is about. \<^verbatim>\<open>random.uniform(a, b)\<close> is
  \<^verbatim>\<open>a + (b - a) * random()\<close>, three float operations. \<^verbatim>\<open>random.choice(seq)\<close> raises
  IndexError on an empty sequence and otherwise returns an element at an index below
  the length; the index is taken from one draw.
\<close>

type_synonym rng = "nat \<Rightarrow> real"

definition random_random :: "rng \<Rightarrow> real \<times> rng" where
  "random_random g = (g 0, \<lambda>n. g (Suc n))"

definition random_uniform :: "real \<Rightarrow> real \<Rightarrow> rng \<Rightarrow> real \<times> rng" where
  "random_uniform a b g =
     (case random_random g of (r, g') \<Rightarrow> (b64 (a + b64 (b64 (b - a) * r)), g'))"

definition random_choice :: "'a list \<Rightarrow> rng \<Rightarrow> (error + 'a) \<times> rng" where
  "random_choice seq g =
     (if seq = [] then (Inl IndexError, g)
      else case random_random g of
             (r, g') \<Rightarrow> (Inr (seq ! nat \<lfloor>r * real (length seq)\<rfloor>), g'))"

text \<open>A word is a Python string: the list of its code points.\<close>

type_synonym word = "nat list"

definition choose_word :: "word list \<Rightarrow> rng \<Rightarrow> (error + word) \<times> rng" where
  "choose_word words g = random_choice words g"

text \<open>
  \<^verbatim>\<open>range(0, stop, step)\<close> for the size \<open>stop\<close> of an image: ValueError for step 0,
  empty for a negative step.
\<close>

definition range0 :: "nat \<Rightarrow> int \<Rightarrow> error + int list" where
  "range0 stop step =
     (if step = 0 then Inl ValueError
      else if step < 0 then Inr []
      else Inr (map (\<lambda>k. int k * step) [0..<nat ((int stop + step - 1) div step)]))"

section \<open>Fonts, layer configurations, glyphs and pictures\<close>

text \<open>
  A loaded font is known by its file and its size; \<^verbatim>\<open>load_font\<close> is taken to succeed
  (a font file that cannot be read is outside this development).
\<close>

record font =
  font_file :: string
  font_pt :: int

definition load_font :: "string \<Rightarrow> int \<Rightarrow> font" where
  "load_font font_path pt = \<lparr>font_file = font_path, font_pt = pt\<rparr>"

type_synonym rgb = "int \<times> int \<times> int"
type_synonym rgba = "int \<times> int \<times> int \<times> int"
type_synonym bbox = "int \<times> int \<times> int \<times> int"

text \<open>
  A layer dictionary. The keys every preset defines are fields; the keys read with
  \<^verbatim>\<open>layer.get(key, default)\<close> are optional.
\<close>

record layer =
  layer_font_size :: int
  layer_step :: int
  layer_base_alpha :: int
  layer_alpha_boost_dark :: int
  layer_density_scale :: real
  layer_color :: rgb
  layer_random_jitter :: "real option"
  layer_allow_rotation :: "bool option"

text \<open>
  The dictionary \<^verbatim>\<open>generate_layer_targets\<close> appends for a placed glyph, and the same
  dictionary once \<^verbatim>\<open>accumulate_layers_animation\<close> has stored its \<^verbatim>\<open>start_pos\<close>.
\<close>

record glyph =
  glyph_word :: word
  glyph_font :: font
  glyph_width :: int
  glyph_height :: int
  glyph_target_pos :: "real \<times> real"
  glyph_alpha :: int
  glyph_color :: rgb

record flying = glyph +
  glyph_start_pos :: "real \<times> real"

text \<open>
  The content of a Pillow image, as the expression that built it: the pixels are a
  function of it that the imaging library fixes. \<open>Original\<close> is the scaled input
  photograph converted to RGBA. The drawing, filtering and converting calls of the
  library are taken to succeed.
\<close>

datatype anchor = AnchorDefault | AnchorMM

datatype picture =
    New "int \<times> int" rgba
  | Original
  | Text picture "real \<times> real" word font rgba anchor
  | Rotate picture real
  | AlphaComposite picture picture "int \<times> int"
  | GaussianBlur real picture
  | ConvertP picture
  | Blend picture picture real

text \<open>
  What the code asks of the imaging library about pixels: the bounding box of a word in
  a font (\<^verbatim>\<open>font.getbbox(word)\<close>) and the bounding box of the non-zero region of an
  image (\<^verbatim>\<open>tmp.getbbox()\<close>, None when the image is empty).
\<close>

record backend =
  font_getbbox :: "font \<Rightarrow> word \<Rightarrow> bbox"
  image_getbbox :: "picture \<Rightarrow> bbox option"

section \<open>animate\_depth\_transition.py: planning the glyphs of a layer\<close>

text \<open>
  The body of the two loops of \<^verbatim>\<open>generate_layer_targets\<close> at the cell (x, y):
  \<^verbatim>\<open>
  lum = word_main.sample_region_luminance(img_gray, x, y, step)
  alpha, density = word_main.luminance_to_alpha_and_density(lum, ...)
  if random.random() > density:
      continue
  word = word_main.choose_word(words)
  jitter_x = (random.random() - 0.5) * 2 * step * 0.4
  jitter_y = (random.random() - 0.5) * 2 * step * 0.4
  px = x + step / 2 + jitter_x
  py = y + step / 2 + jitter_y
  size_variation = random.uniform(0.9, 1.2)
  fsize = max(6, int(font_size * size_variation))
  font = base_font if fsize == font_size else word_main.load_font(font_path, fsize)
  bbox = font.getbbox(word)
  tw = bbox[2] - bbox[0]
  th = bbox[3] - bbox[1]
  targets.append(dict(word=word, font=font, width=tw, height=th,
                      target_pos=(px, py), alpha=alpha, color=color))
  \<close>
  The result is None when the cell is skipped, and the glyph otherwise. The jittered
  position (px, py) is the real number that the expression of the code denotes; the
  size variation and the font size are the binary64 values.
\<close>

definition target_cell ::
  "backend \<Rightarrow> image_gray \<Rightarrow> string \<Rightarrow> int \<Rightarrow> int \<Rightarrow> int \<Rightarrow> int \<Rightarrow> real \<Rightarrow> rgb \<Rightarrow> word list \<Rightarrow> font \<Rightarrow>
   int \<Rightarrow> int \<Rightarrow> rng \<Rightarrow> error + (glyph option \<times> rng)" where
  "target_cell be img_gray font_path step font_size base_alpha alpha_boost_dark density_scale
     color words base_font x y g =
     (case sample_region_luminance img_gray x y step of
        Inl e \<Rightarrow> Inl e
      | Inr lum \<Rightarrow>
          (case luminance_to_alpha_and_density lum base_alpha alpha_boost_dark density_scale of
             (alpha, density) \<Rightarrow>
               (case random_random g of
                  (r, g1) \<Rightarrow>
                    if r > density then Inr (None, g1)
                    else
                      (case choose_word words g1 of
                         (Inl e, g2) \<Rightarrow> Inl e
                       | (Inr word, g2) \<Rightarrow>
                           (case random_random g2 of
                              (rx, g3) \<Rightarrow>
                                (case random_random g3 of
                                   (ry, g4) \<Rightarrow>
                                     (case random_uniform (b64 0.9) (b64 1.2) g4 of
                                        (size_variation, g5) \<Rightarrow>
                                          (let jitter_x = (rx - 0.5) * 2 * real_of_int step * 0.4;
                                               jitter_y = (ry - 0.5) * 2 * real_of_int step * 0.4;
                                               px = real_of_int x + real_of_int step / 2 + jitter_x;
                                               py = real_of_int y + real_of_int step / 2 + jitter_y;
                                               fsize = max 6 (py_int (b64 (b64 (real_of_int font_size) * size_variation)));
                                               font = (if fsize = font_size then base_font
                                                       else load_font font_path fsize);
                                               bbox = font_getbbox be font word;
                                               tw = fst (snd (snd bbox)) - fst bbox;
                                               th = snd (snd (snd bbox)) - fst (snd bbox)
                                           in Inr (Some \<lparr>glyph_word = word, glyph_font = font,
                                                     glyph_width = tw, glyph_height = th,
                                                     glyph_target_pos = (px, py),
                                                     glyph_alpha = alpha, glyph_color = color\<rparr>,
                                                   g5)))))))))"

text \<open>
  \<^verbatim>\<open>for x in range(0, w, step)\<close> over the cells of one row, and
  \<^verbatim>\<open>for y in range(0, h, step)\<close> over the rows; an exception ends both.
\<close>

fun targets_row ::
  "(int \<Rightarrow> int \<Rightarrow> rng \<Rightarrow> error + (glyph option \<times> rng)) \<Rightarrow> int list \<Rightarrow> int \<Rightarrow> glyph list \<Rightarrow> rng \<Rightarrow>
   error + (glyph list \<times> rng)" where
  "targets_row cell [] y targets g = Inr (targets, g)"
| "targets_row cell (x # xs) y targets g =
     (case cell x y g of
        Inl e \<Rightarrow> Inl e
      | Inr (None, g') \<Rightarrow> targets_row cell xs y targets g'
      | Inr (Some t, g') \<Rightarrow> targets_row cell xs y (targets @ [t]) g')"

fun targets_rows ::
  "(int \<Rightarrow> int \<Rightarrow> rng \<Rightarrow> error + (glyph option \<times> rng)) \<Rightarrow> nat \<Rightarrow> int \<Rightarrow> int list \<Rightarrow> glyph list \<Rightarrow> rng \<Rightarrow>
   error + (glyph list \<times> rng)" where
  "targets_rows cell w step [] targets g = Inr (targets, g)"
| "targets_rows cell w step (y # ys) targets g =
     (case range0 w step of
        Inl e \<Rightarrow> Inl e
      | Inr xs \<Rightarrow>
          (case targets_row cell xs y targets g of
             Inl e \<Rightarrow> Inl e
           | Inr (targets', g') \<Rightarrow> targets_rows cell w step ys targets' g'))"

definition generate_layer_targets ::
  "backend \<Rightarrow> image_gray \<Rightarrow> string \<Rightarrow> layer \<Rightarrow> word list \<Rightarrow> real \<Rightarrow> rng \<Rightarrow> error + (glyph list \<times> rng)" where
  "generate_layer_targets be img_gray font_path layer words density_multiplier g =
     (let w = im_width img_gray;
          h = im_height img_gray;
          step = layer_step layer;
          font_size = layer_font_size layer;
          base_alpha = layer_base_alpha layer;
          alpha_boost_dark = layer_alpha_boost_dark layer;
          density_scale = b64 (layer_density_scale layer * density_multiplier);
          color = layer_color layer;
          base_font = load_font font_path font_size
      in case range0 h step of
           Inl e \<Rightarrow> Inl e
         | Inr ys \<Rightarrow>
             targets_rows
               (target_cell be img_gray font_path step font_size base_alpha alpha_boost_dark
                  density_scale color words base_font)
               w step ys [] g)"

section \<open>main.py: drawing a layer\<close>

text \<open>
  What \<^verbatim>\<open>draw_layer\<close> changes: the generator, the canvas it draws on, and (kept for
  the statements about the order of effects) the cells on which
  \<^verbatim>\<open>sample_region_luminance\<close> has been called so far. An exception leaves them as they
  are when it is raised.
\<close>

record render_state =
  rs_rng :: rng
  rs_canvas :: picture
  rs_sampled :: "(int \<times> int) list"

text \<open>
  The body of the two loops of \<^verbatim>\<open>draw_layer\<close> at the cell (x, y). Up to the font
  metrics it is the code of \<open>target_cell\<close>, with \<^verbatim>\<open>random_jitter\<close> for the jitter
  fraction; then
  \<^verbatim>\<open>
  tx = int(px - tw / 2)
  ty = int(py - th / 2)
  if allow_rotation:
      angle = random.uniform(-25, 25)
      tmp = Image.new("RGBA", (tw * 2, th * 2), (0, 0, 0, 0))
      tmp_draw = ImageDraw.Draw(tmp)
      tmp_draw.text((tw / 2, th / 2), word, font=font,
                    fill=(color[0], color[1], color[2], alpha), anchor="mm")
      tmp = tmp.rotate(angle, expand=1)
      bbox = tmp.getbbox()
      if bbox:
          rw, rh = bbox[2] - bbox[0], bbox[3] - bbox[1]
          cx = int(px - rw / 2)
          cy = int(py - rh / 2)
          canvas.alpha_composite(tmp, dest=(cx, cy))
  else:
      draw = ImageDraw.Draw(canvas)
      draw.text((tx, ty), word, font=font, fill=(color[0], color[1], color[2], alpha))
  \<close>
\<close>

definition draw_cell ::
  "backend \<Rightarrow> image_gray \<Rightarrow> string \<Rightarrow> int \<Rightarrow> word list \<Rightarrow> int \<Rightarrow> int \<Rightarrow> int \<Rightarrow> real \<Rightarrow> rgb \<Rightarrow> real \<Rightarrow> bool \<Rightarrow>
   font \<Rightarrow> int \<Rightarrow> int \<Rightarrow> render_state \<Rightarrow> (error + unit) \<times> render_state" where
  "draw_cell be img_gray font_path font_size words step base_alpha alpha_boost_dark density_scale
     color random_jitter allow_rotation base_font x y st =
     (let st0 = st\<lparr>rs_sampled := rs_sampled st @ [(x, y)]\<rparr> in
      case sample_region_luminance img_gray x y step of
        Inl e \<Rightarrow> (Inl e, st0)
      | Inr lum \<Rightarrow>
          (case luminance_to_alpha_and_density lum base_alpha alpha_boost_dark density_scale of
             (alpha, density) \<Rightarrow>
               (case random_random (rs_rng st0) of
                  (r, g1) \<Rightarrow>
                    if r > density then (Inr (), st0\<lparr>rs_rng := g1\<rparr>)
                    else
                      (case choose_word words g1 of
                         (Inl e, g2) \<Rightarrow> (Inl e, st0\<lparr>rs_rng := g2\<rparr>)
                       | (Inr word, g2) \<Rightarrow>
                           (case random_random g2 of
                              (rx, g3) \<Rightarrow>
                                (case random_random g3 of
                                   (ry, g4) \<Rightarrow>
                                     (case random_uniform (b64 0.9) (b64 1.2) g4 of
                                        (size_variation, g5) \<Rightarrow>
                                          (let jitter_x = (rx - 0.5) * 2 * real_of_int step * random_jitter;
                                               jitter_y = (ry - 0.5) * 2 * real_of_int step * random_jitter;
                                               px = real_of_int x + real_of_int step / 2 + jitter_x;
                                               py = real_of_int y + real_of_int step / 2 + jitter_y;
                                               fsize = max 6 (py_int (b64 (b64 (real_of_int font_size) * size_variation)));
                                               font = (if fsize = font_size then base_font
                                                       else load_font font_path fsize);
                                               bbox = font_getbbox be font word;
                                               tw = fst (snd (snd bbox)) - fst bbox;
                                               th = snd (snd (snd bbox)) - fst (snd bbox);
                                               tx = py_int (b64 (px - b64 (real_of_int tw / 2)));
                                               ty = py_int (b64 (py - b64 (real_of_int th / 2)));
                                               fill = (fst color, fst (snd color), snd (snd color), alpha)
                                           in if allow_rotation then
                                                (case random_uniform (- 25) 25 g5 of
                                                   (angle, g6) \<Rightarrow>
                                                     (let tmp = New (tw * 2, th * 2) (0, 0, 0, 0);
                                                          tmp = Text tmp (b64 (real_of_int tw / 2),
                                                                          b64 (real_of_int th / 2))
                                                                  word font fill AnchorMM;
                                                          tmp = Rotate tmp angle
                                                      in case image_getbbox be tmp of
                                                           None \<Rightarrow> (Inr (), st0\<lparr>rs_rng := g6\<rparr>)
                                                         | Some rb \<Rightarrow>
                                                             (let rw = fst (snd (snd rb)) - fst rb;
                                                                  rh = snd (snd (snd rb)) - fst (snd rb);
                                                                  cx = py_int (b64 (px - b64 (real_of_int rw / 2)));
                                                                  cy = py_int (b64 (py - b64 (real_of_int rh / 2)))
                                                              in (Inr (),
                                                                  st0\<lparr>rs_rng := g6,
                                                                     rs_canvas := AlphaComposite (rs_canvas st0) tmp (cx, cy)\<rparr>))))
                                              else
                                                (Inr (),
                                                 st0\<lparr>rs_rng := g5,
                                                    rs_canvas := Text (rs_canvas st0)
                                                      (real_of_int tx, real_of_int ty) word font fill
                                                      AnchorDefault\<rparr>)))))))))"

fun draw_row ::
  "(int \<Rightarrow> int \<Rightarrow> render_state \<Rightarrow> (error + unit) \<times> render_state) \<Rightarrow> int list \<Rightarrow> int \<Rightarrow> render_state \<Rightarrow>
   (error + unit) \<times> render_state" where
  "draw_row cell [] y st = (Inr (), st)"
| "draw_row cell (x # xs) y st =
     (case cell x y st of
        (Inl e, st') \<Rightarrow> (Inl e, st')
      | (Inr u, st') \<Rightarrow> draw_row cell xs y st')"

fun draw_rows ::
  "(int \<Rightarrow> int \<Rightarrow> render_state \<Rightarrow> (error + unit) \<times> render_state) \<Rightarrow> nat \<Rightarrow> int \<Rightarrow> int list \<Rightarrow>
   render_state \<Rightarrow> (error + unit) \<times> render_state" where
  "draw_rows cell w step [] st = (Inr (), st)"
| "draw_rows cell w step (y # ys) st =
     (case range0 w step of
        Inl e \<Rightarrow> (Inl e, st)
      | Inr xs \<Rightarrow>
          (case draw_row cell xs y st of
             (Inl e, st') \<Rightarrow> (Inl e, st')
           | (Inr u, st') \<Rightarrow> draw_rows cell w step ys st'))"

definition draw_layer ::
  "backend \<Rightarrow> image_gray \<Rightarrow> string \<Rightarrow> int \<Rightarrow> word list \<Rightarrow> int \<Rightarrow> int \<Rightarrow> int \<Rightarrow> real \<Rightarrow> rgb \<Rightarrow> real \<Rightarrow> bool \<Rightarrow>
   render_state \<Rightarrow> (error + unit) \<times> render_state" where
  "draw_layer be img_gray font_path font_size words step base_alpha alpha_boost_dark density_scale
     color random_jitter allow_rotation st =
     (let w = im_width img_gray;
          h = im_height img_gray;
          base_font = load_font font_path font_size
      in case range0 h step of
           Inl e \<Rightarrow> (Inl e, st)
         | Inr ys \<Rightarrow>
             draw_rows
               (draw_cell be img_gray font_path font_size words step base_alpha alpha_boost_dark
                  density_scale color random_jitter allow_rotation base_font)
               w step ys st)"

section \<open>generate\_variations.py: the style presets\<close>

text \<open>
  \<^verbatim>\<open>dict(font_size=.., step=.., base_alpha=.., alpha_boost_dark=.., density_scale=.., color=..)\<close>:
  a preset layer defines neither \<^verbatim>\<open>random_jitter\<close> nor \<^verbatim>\<open>allow_rotation\<close>. The density
  scales are float literals.
\<close>

definition preset_layer :: "int \<Rightarrow> int \<Rightarrow> int \<Rightarrow> int \<Rightarrow> real \<Rightarrow> rgb \<Rightarrow> layer" where
  "preset_layer font_size step base_alpha alpha_boost_dark density_scale color =
     \<lparr>layer_font_size = font_size, layer_step = step, layer_base_alpha = base_alpha,
      layer_alpha_boost_dark = alpha_boost_dark, layer_density_scale = density_scale,
      layer_color = color, layer_random_jitter = None, layer_allow_rotation = None\<rparr>"

definition get_style_presets :: "(string \<times> layer list) list" where
  "get_style_presets =
     [(''subtle_soft'',
         [preset_layer 52 56 20 130 0.5 (0, 0, 0),
          preset_layer 30 32 30 140 (b64 0.9) (0, 0, 0),
          preset_layer 18 18 40 150 (b64 1.2) (0, 0, 0)]),
      (''graphic_bold'',
         [preset_layer 64 60 40 200 (b64 0.8) (0, 0, 0),
          preset_layer 32 30 60 190 (b64 1.6) (0, 0, 0),
          preset_layer 16 14 70 190 (b64 1.8) (0, 0, 0)]),
      (''deep_dense'',
         [preset_layer 40 40 25 210 1.0 (0, 0, 0),
          preset_layer 26 22 40 210 (b64 1.8) (0, 0, 0),
          preset_layer 14 10 50 210 (b64 2.2) (0, 0, 0)]),
      (''minimal_airy'',
         [preset_layer 60 70 15 120 (b64 0.4) (0, 0, 0),
          preset_layer 32 46 20 130 (b64 0.6) (0, 0, 0),
          preset_layer 18 30 25 140 (b64 0.8) (0, 0, 0)])]"

text \<open>\<^verbatim>\<open>presets[name]\<close>: KeyError for a name that is not a key.\<close>

definition dict_get :: "('k \<times> 'v) list \<Rightarrow> 'k \<Rightarrow> error + 'v" where
  "dict_get d k = (case map_of d k of None \<Rightarrow> Inl KeyError | Some v \<Rightarrow> Inr v)"

section \<open>animate\_depth\_transition.py: the animation\<close>

text \<open>
  The vocabulary of the animation, \<^verbatim>\<open>list("...")\<close> of a literal of 30 characters, as
  code points.
\<close>

definition chinese_words :: "word list" where
  "chinese_words = map (\<lambda>c. [c])
     [22825, 22320, 20154, 21644, 23665, 27700, 39118, 20113, 26085, 26376,
      26143, 36784, 20809, 24433, 40657, 30333, 34394, 23454, 26790, 22659,
      25991, 23383, 37325, 21472, 23618, 27425, 28145, 27973, 21464, 21270]"

text \<open>
  \<^verbatim>\<open>
  side = random.choice(["left", "right", "top", "bottom"])
  if side == "left":
      return -w * random.uniform(0.1, 0.5), random.uniform(0, h)
  if side == "right":
      return w * (1 + random.uniform(0.1, 0.5)), random.uniform(0, h)
  if side == "top":
      return random.uniform(0, w), -h * random.uniform(0.1, 0.5)
  return random.uniform(0, w), h * (1 + random.uniform(0.1, 0.5))
  \<close>
\<close>

definition random_offscreen_start :: "nat \<Rightarrow> nat \<Rightarrow> rng \<Rightarrow> error + ((real \<times> real) \<times> rng)" where
  "random_offscreen_start w h g =
     (case random_choice [''left'', ''right'', ''top'', ''bottom''] g of
        (Inl e, g1) \<Rightarrow> Inl e
      | (Inr side, g1) \<Rightarrow>
          if side = ''left'' then
            (case random_uniform (b64 0.1) 0.5 g1 of
               (u, g2) \<Rightarrow>
                 (case random_uniform 0 (real h) g2 of
                    (v, g3) \<Rightarrow> Inr ((b64 (b64 (- real w) * u), v), g3)))
          else if side = ''right'' then
            (case random_uniform (b64 0.1) 0.5 g1 of
               (u, g2) \<Rightarrow>
                 (case random_uniform 0 (real h) g2 of
                    (v, g3) \<Rightarrow> Inr ((b64 (b64 (real w) * b64 (1 + u)), v), g3)))
          else if side = ''top'' then
            (case random_uniform 0 (real w) g1 of
               (v, g2) \<Rightarrow>
                 (case random_uniform (b64 0.1) 0.5 g2 of
                    (u, g3) \<Rightarrow> Inr ((v, b64 (b64 (- real h) * u)), g3)))
          else
            (case random_uniform 0 (real w) g1 of
               (v, g2) \<Rightarrow>
                 (case random_uniform (b64 0.1) 0.5 g2 of
                    (u, g3) \<Rightarrow> Inr ((v, b64 (b64 (real h) * b64 (1 + u))), g3))))"

text \<open>
  \<^verbatim>\<open>
  for t in targets:
      start_x, start_y = random_offscreen_start(w, h)
      t["start_pos"] = (start_x, start_y)
  \<close>
\<close>

fun assign_starts :: "nat \<Rightarrow> nat \<Rightarrow> glyph list \<Rightarrow> rng \<Rightarrow> error + (flying list \<times> rng)" where
  "assign_starts w h [] g = Inr ([], g)"
| "assign_starts w h (t # ts) g =
     (case random_offscreen_start w h g of
        Inl e \<Rightarrow> Inl e
      | Inr (start, g') \<Rightarrow>
          (case assign_starts w h ts g' of
             Inl e \<Rightarrow> Inl e
           | Inr (fs, g'') \<Rightarrow> Inr (glyph.extend t (flying.fields start) # fs, g'')))"

text \<open>
  Image objects live in a store: a variable of the code holds the address of an image,
  \<^verbatim>\<open>copy\<close>, \<^verbatim>\<open>filter\<close>, \<^verbatim>\<open>convert\<close>, \<^verbatim>\<open>Image.new\<close> and \<^verbatim>\<open>Image.blend\<close> make a new
  object, and drawing through \<^verbatim>\<open>ImageDraw.Draw(im)\<close> changes the object \<^verbatim>\<open>im\<close> in
  place. \<open>frames\<close> is the list \<^verbatim>\<open>frames\<close> of the code: addresses, in the order of the
  appends.
\<close>

record anim_state =
  heap :: "picture list"
  an_rng :: rng
  frames :: "nat list"

definition alloc :: "picture \<Rightarrow> anim_state \<Rightarrow> nat \<times> anim_state" where
  "alloc p st = (length (heap st), st\<lparr>heap := heap st @ [p]\<rparr>)"

definition draw_text :: "nat \<Rightarrow> int \<times> int \<Rightarrow> word \<Rightarrow> font \<Rightarrow> rgba \<Rightarrow> anim_state \<Rightarrow> anim_state" where
  "draw_text im pos word font fill st =
     st\<lparr>heap := (heap st)[im := Text (heap st ! im) (real_of_int (fst pos), real_of_int (snd pos))
                                word font fill AnchorDefault]\<rparr>"

text \<open>\<^verbatim>\<open>t_norm = (f + 1) / float(frames_per_layer)\<close>\<close>

definition t_norm :: "int \<Rightarrow> int \<Rightarrow> real" where
  "t_norm f frames_per_layer = b64 (b64 (real_of_int (f + 1)) / b64 (real_of_int frames_per_layer))"

text \<open>
  \<^verbatim>\<open>
  sx, sy = glyph["start_pos"]
  tx, ty = glyph["target_pos"]
  cx = sx + (tx - sx) * t_norm
  cy = sy + (ty - sy) * t_norm
  \<close>
\<close>

definition flight_center :: "real \<Rightarrow> flying \<Rightarrow> real \<times> real" where
  "flight_center t glyph =
     (case glyph_start_pos glyph of
        (sx, sy) \<Rightarrow>
          (case glyph_target_pos glyph of
             (tx, ty) \<Rightarrow> (b64 (sx + b64 (b64 (tx - sx) * t)), b64 (sy + b64 (b64 (ty - sy) * t)))))"

text \<open>
  One glyph of a flight frame:
  \<^verbatim>\<open>
  tw = glyph["width"]
  th = glyph["height"]
  x = int(cx - tw / 2)
  y = int(cy - th / 2)
  r, g, b = glyph["color"]
  a = glyph["alpha"]
  draw.text((x, y), glyph["word"], font=glyph["font"], fill=(r, g, b, a))
  \<close>
\<close>

definition draw_flying_glyph :: "nat \<Rightarrow> real \<Rightarrow> flying \<Rightarrow> anim_state \<Rightarrow> anim_state" where
  "draw_flying_glyph frame_rgba t glyph st =
     (case flight_center t glyph of
        (cx, cy) \<Rightarrow>
          (let tw = glyph_width glyph;
               th = glyph_height glyph;
               x = py_int (b64 (cx - b64 (real_of_int tw / 2)));
               y = py_int (b64 (cy - b64 (real_of_int th / 2)))
           in case glyph_color glyph of
                (r, g, b) \<Rightarrow>
                  draw_text frame_rgba (x, y) (glyph_word glyph) (glyph_font glyph)
                    (r, g, b, glyph_alpha glyph) st))"

text \<open>
  One pass of \<^verbatim>\<open>for f in range(frames_per_layer)\<close>:
  \<^verbatim>\<open>
  frame_rgba = settled_canvas.copy()
  draw = ImageDraw.Draw(frame_rgba)
  for glyph in targets: ...
  blur_radius = 1.2 * (1.0 - t_norm)
  if blur_radius > 0.1:
      frame_rgba = frame_rgba.filter(ImageFilter.GaussianBlur(radius=blur_radius))
  frames.append(frame_rgba.convert("P", palette=Image.ADAPTIVE))
  \<close>
\<close>

definition flight_frame :: "nat \<Rightarrow> flying list \<Rightarrow> int \<Rightarrow> int \<Rightarrow> anim_state \<Rightarrow> anim_state" where
  "flight_frame settled_canvas targets frames_per_layer f st =
     (let t = t_norm f frames_per_layer in
      case alloc (heap st ! settled_canvas) st of
        (frame_rgba, st1) \<Rightarrow>
          (let st2 = fold (draw_flying_glyph frame_rgba t) targets st1;
               blur_radius = b64 (b64 1.2 * b64 (1 - t))
           in case (if blur_radius > b64 0.1
                    then alloc (GaussianBlur blur_radius (heap st2 ! frame_rgba)) st2
                    else (frame_rgba, st2)) of
                (frame_rgba', st3) \<Rightarrow>
                  (case alloc (ConvertP (heap st3 ! frame_rgba')) st3 of
                     (p, st4) \<Rightarrow> st4\<lparr>frames := frames st4 @ [p]\<rparr>)))"

text \<open>
  The commit of a layer, one glyph at a time:
  \<^verbatim>\<open>
  settled_draw = ImageDraw.Draw(settled_canvas)
  for glyph in targets:
      tx, ty = glyph["target_pos"]
      x = int(tx - tw / 2)
      y = int(ty - th / 2)
      settled_draw.text((x, y), glyph["word"], font=glyph["font"], fill=(r, g, b, a))
  \<close>
\<close>

definition commit_glyph :: "nat \<Rightarrow> flying \<Rightarrow> anim_state \<Rightarrow> anim_state" where
  "commit_glyph settled_canvas glyph st =
     (case glyph_target_pos glyph of
        (tx, ty) \<Rightarrow>
          (let tw = glyph_width glyph;
               th = glyph_height glyph;
               x = py_int (b64 (tx - b64 (real_of_int tw / 2)));
               y = py_int (b64 (ty - b64 (real_of_int th / 2)))
           in case glyph_color glyph of
                (r, g, b) \<Rightarrow>
                  draw_text settled_canvas (x, y) (glyph_word glyph) (glyph_font glyph)
                    (r, g, b, glyph_alpha glyph) st))"

text \<open>One pass of \<^verbatim>\<open>for idx, layer in enumerate(combined_layers)\<close>.\<close>

definition animate_layer ::
  "backend \<Rightarrow> image_gray \<Rightarrow> string \<Rightarrow> word list \<Rightarrow> nat \<Rightarrow> int \<Rightarrow> layer \<Rightarrow> anim_state \<Rightarrow> error + anim_state" where
  "animate_layer be img_gray font_path words settled_canvas frames_per_layer layer st =
     (case generate_layer_targets be img_gray font_path layer words 1.0 (an_rng st) of
        Inl e \<Rightarrow> Inl e
      | Inr (targets, g1) \<Rightarrow>
          (case assign_starts (im_width img_gray) (im_height img_gray) targets g1 of
             Inl e \<Rightarrow> Inl e
           | Inr (targets', g2) \<Rightarrow>
               (let st1 = st\<lparr>an_rng := g2\<rparr>;
                    st2 = fold (flight_frame settled_canvas targets' frames_per_layer)
                            [0..frames_per_layer - 1] st1
                in Inr (fold (commit_glyph settled_canvas) targets' st2))))"

fun animate_layers ::
  "backend \<Rightarrow> image_gray \<Rightarrow> string \<Rightarrow> word list \<Rightarrow> nat \<Rightarrow> int \<Rightarrow> layer list \<Rightarrow> anim_state \<Rightarrow> error + anim_state" where
  "animate_layers be img_gray font_path words settled_canvas frames_per_layer [] st = Inr st"
| "animate_layers be img_gray font_path words settled_canvas frames_per_layer (layer # layers) st =
     (case animate_layer be img_gray font_path words settled_canvas frames_per_layer layer st of
        Inl e \<Rightarrow> Inl e
      | Inr st' \<Rightarrow> animate_layers be img_gray font_path words settled_canvas frames_per_layer layers st')"

text \<open>
  One pass of \<^verbatim>\<open>for i in range(final_original_frames)\<close>:
  \<^verbatim>\<open>
  alpha = (i + 1) / float(final_original_frames)
  blended = Image.blend(settled_canvas, original_rgba, alpha)
  blur_radius = max(0.0, 1.5 - 1.5 * alpha)
  if blur_radius > 0:
      blended = blended.filter(ImageFilter.GaussianBlur(radius=blur_radius))
  frames.append(blended.convert("P", palette=Image.ADAPTIVE))
  \<close>
\<close>

definition fade_frame :: "nat \<Rightarrow> nat \<Rightarrow> int \<Rightarrow> int \<Rightarrow> anim_state \<Rightarrow> anim_state" where
  "fade_frame settled_canvas original_rgba final_original_frames i st =
     (let alpha = b64 (b64 (real_of_int (i + 1)) / b64 (real_of_int final_original_frames)) in
      case alloc (Blend (heap st ! settled_canvas) (heap st ! original_rgba) alpha) st of
        (blended, st1) \<Rightarrow>
          (let blur_radius = max 0 (b64 (1.5 - b64 (1.5 * alpha)))
           in case (if blur_radius > 0
                    then alloc (GaussianBlur blur_radius (heap st1 ! blended)) st1
                    else (blended, st1)) of
                (blended', st2) \<Rightarrow>
                  (case alloc (ConvertP (heap st2 ! blended')) st2 of
                     (p, st3) \<Rightarrow> st3\<lparr>frames := frames st3 @ [p]\<rparr>)))"

text \<open>
  \<^verbatim>\<open>accumulate_layers_animation\<close>, from the scaled image on (decoding and scaling the
  input file is the imaging library's). The settled canvas is the first object of the
  store. The result is the final state and what is handed to the GIF encoder: nothing
  when \<^verbatim>\<open>frames\<close> is empty, the frames in order otherwise.
\<close>

definition accumulate_layers_animation ::
  "backend \<Rightarrow> image_gray \<Rightarrow> string \<Rightarrow> rgb \<Rightarrow> int \<Rightarrow> int \<Rightarrow> rng \<Rightarrow> error + (anim_state \<times> nat list option)" where
  "accumulate_layers_animation be img_gray font_path background frames_per_layer
     final_original_frames g =
     (let w = im_width img_gray;
          h = im_height img_gray;
          settled_canvas = 0;
          st0 = \<lparr>heap = [New (int w, int h)
                            (fst background, fst (snd background), snd (snd background), 255)],
                 an_rng = g, frames = []\<rparr>
      in case dict_get get_style_presets ''subtle_soft'' of
           Inl e \<Rightarrow> Inl e
         | Inr subtle_layers \<Rightarrow>
             (case dict_get get_style_presets ''graphic_bold'' of
                Inl e \<Rightarrow> Inl e
              | Inr bold_layers \<Rightarrow>
                  (let combined_layers = subtle_layers @ bold_layers in
                   case animate_layers be img_gray font_path chinese_words settled_canvas
                          frames_per_layer combined_layers st0 of
                     Inl e \<Rightarrow> Inl e
                   | Inr st1 \<Rightarrow>
                       (case alloc Original st1 of
                          (original_rgba, st2) \<Rightarrow>
                            (let st3 = fold (fade_frame settled_canvas original_rgba
                                               final_original_frames)
                                         [0..final_original_frames - 1] st2
                             in Inr (st3, if frames st3 = [] then None
                                          else Some (frames st3)))))))"

text \<open>
  The two kinds of frame by their content: a fade frame is the conversion of a blend
  (blurred or not); a canvas that only had glyphs drawn on it is \<open>drawn_canvas\<close>.
\<close>

fun is_fade_frame :: "picture \<Rightarrow> bool" where
  "is_fade_frame (ConvertP (Blend p q a)) = True"
| "is_fade_frame (ConvertP (GaussianBlur r (Blend p q a))) = True"
| "is_fade_frame p = False"

fun drawn_canvas :: "picture \<Rightarrow> bool" where
  "drawn_canvas (New sz c) = True"
| "drawn_canvas (Text p pos word font fill anchor) = drawn_canvas p"
| "drawn_canvas p = False"

fun is_flight_frame :: "picture \<Rightarrow> bool" where
  "is_flight_frame (ConvertP (GaussianBlur r p)) = drawn_canvas p"
| "is_flight_frame (ConvertP p) = drawn_canvas p"
| "is_flight_frame p = False"

section \<open>The specification's font size, and the font of the last glyph drawn\<close>

text \<open>The resolved font size as the specification words it: rounded, then at least 6.\<close>

definition spec_font_size :: "int \<Rightarrow> real \<Rightarrow> int" where
  "spec_font_size font_size factor = max 6 (round (real_of_int font_size * factor))"

text \<open>
  The font of the glyph that \<^verbatim>\<open>draw_layer\<close> drew last on a canvas: the font of the text
  drawn directly, or of the text on the rotated buffer that was composited.
\<close>

fun drawn_font :: "picture \<Rightarrow> font option" where
  "drawn_font (Text p pos w f fill a) = Some f"
| "drawn_font (AlphaComposite p (Rotate (Text q pos w f fill a) angle) d) = Some f"
| "drawn_font p = None"

section \<open>Concrete inputs\<close>

text \<open>
  A font backend whose glyph boxes are squares of the font size and whose rotated
  buffers are empty; images of one pixel (value 200, black, white) and a 3 by 3 image
  of constant value 7; initial states of \<^verbatim>\<open>draw_layer\<close> and of the animation, with the
  draws that the generator will return.
\<close>

definition example_backend :: backend where
  "example_backend =
     \<lparr>font_getbbox = (\<lambda>f w. (0, 0, font_pt f, font_pt f)), image_getbbox = (\<lambda>p. None)\<rparr>"

definition px1 :: image_gray where
  "px1 = \<lparr>im_width = 1, im_height = 1, getpixel = (\<lambda>i j. 200)\<rparr>"

definition black1 :: image_gray where
  "black1 = \<lparr>im_width = 1, im_height = 1, getpixel = (\<lambda>i j. 0)\<rparr>"

definition white1 :: image_gray where
  "white1 = \<lparr>im_width = 1, im_height = 1, getpixel = (\<lambda>i j. 255)\<rparr>"

definition flat3 :: image_gray where
  "flat3 = \<lparr>im_width = 3, im_height = 3, getpixel = (\<lambda>i j. 7)\<rparr>"

definition blank_state :: render_state where
  "blank_state =
     \<lparr>rs_rng = (\<lambda>n. 1 / 2), rs_canvas = New (1, 1) (255, 255, 255, 255), rs_sampled = []\<rparr>"

definition flat3_state :: render_state where
  "flat3_state =
     \<lparr>rs_rng = (\<lambda>n. if n < 2 then 7 / 8 else 0), rs_canvas = New (3, 3) (255, 255, 255, 255),
      rs_sampled = []\<rparr>"

definition blank_anim :: anim_state where
  "blank_anim = \<lparr>heap = [New (1, 1) (255, 255, 255, 255)], an_rng = (\<lambda>n. 1 / 2), frames = []\<rparr>"

text \<open>
  Two glyphs in flight, with binary64 coordinates. The first flies from (-100, 30) to
  (25, 40). The second has the target 14.4 (the binary64 number of this literal) on both
  axes, which is the position that the planner computes at the cell (0, 0) for the step
  18 and the jitter draws 7/8, and the start (-160, 150), which is the start that
  \<^verbatim>\<open>random_offscreen_start\<close> returns on the left of a canvas of 800 by 600 for the draws
  0, 1/4, 1/4.
\<close>

definition settling_glyph :: flying where
  "settling_glyph =
     \<lparr>glyph_word = [65], glyph_font = load_font ''f.ttf'' 18, glyph_width = 18,
      glyph_height = 18, glyph_target_pos = (25, 40), glyph_alpha = 190,
      glyph_color = (0, 0, 0), glyph_start_pos = (- 100, 30)\<rparr>"

definition drifting_glyph :: flying where
  "drifting_glyph =
     \<lparr>glyph_word = [65], glyph_font = load_font ''f.ttf'' 18, glyph_width = 18,
      glyph_height = 18,
      glyph_target_pos = (8106479329266893 / 562949953421312, 8106479329266893 / 562949953421312),
      glyph_alpha = 190, glyph_color = (0, 0, 0), glyph_start_pos = (- 160, 150)\<rparr>"

section \<open>Predicates used in the statements\<close>

text \<open>
  The cells of the grid in the order in which the two loops of \<^verbatim>\<open>draw_layer\<close> visit
  them, row by row, and the density that the code computes at a cell.
\<close>

definition grid_cells :: "image_gray \<Rightarrow> int \<Rightarrow> (int \<times> int) list" where
  "grid_cells img step =
     (case (range0 (im_height img) step, range0 (im_width img) step) of
        (Inr ys, Inr xs) \<Rightarrow> concat (map (\<lambda>y. map (\<lambda>x. (x, y)) xs) ys)
      | _ \<Rightarrow> [])"

definition cell_density :: "image_gray \<Rightarrow> int \<Rightarrow> int \<Rightarrow> int \<Rightarrow> real \<Rightarrow> int \<times> int \<Rightarrow> real" where
  "cell_density img step base_alpha alpha_boost_dark density_scale c =
     (case sample_region_luminance img (fst c) (snd c) step of
        Inl e \<Rightarrow> 0
      | Inr lum \<Rightarrow> snd (luminance_to_alpha_and_density lum base_alpha alpha_boost_dark density_scale))"

text \<open>
  Thinning alone, over a list of cells with the density d: every cell is sampled and
  takes one draw; a cell whose draw exceeds its density is skipped, and the first cell
  that is not skipped ends the walk with IndexError. This is what \<^verbatim>\<open>draw_layer\<close> is
  shown to do on an empty vocabulary.
\<close>

fun thin_cells ::
  "(int \<times> int \<Rightarrow> real) \<Rightarrow> (int \<times> int) list \<Rightarrow> render_state \<Rightarrow> (error + unit) \<times> render_state" where
  "thin_cells d [] st = (Inr (), st)"
| "thin_cells d (c # cs) st =
     (let st' = st\<lparr>rs_sampled := rs_sampled st @ [c], rs_rng := \<lambda>n. rs_rng st (Suc n)\<rparr>
      in if rs_rng st 0 > d c then thin_cells d cs st' else (Inl IndexError, st'))"

text \<open>
  The picture after a glyph has been drawn with its center at \<open>c\<close>: the text goes to
  the top-left corner c - (width, height) / 2, computed in binary64 and truncated to
  integers.
\<close>

definition text_at :: "real \<times> real \<Rightarrow> flying \<Rightarrow> picture \<Rightarrow> picture" where
  "text_at c glyph p =
     Text p (real_of_int (py_int (b64 (fst c - b64 (real_of_int (glyph_width glyph) / 2)))),
             real_of_int (py_int (b64 (snd c - b64 (real_of_int (glyph_height glyph) / 2)))))
       (glyph_word glyph) (glyph_font glyph)
       (fst (glyph_color glyph), fst (snd (glyph_color glyph)), snd (snd (glyph_color glyph)),
        glyph_alpha glyph) AnchorDefault"

text \<open>The picture of flight frame f of a layer, drawn over the picture \<open>p\<close>.\<close>

definition flight_picture :: "flying list \<Rightarrow> int \<Rightarrow> int \<Rightarrow> picture \<Rightarrow> picture" where
  "flight_picture targets frames_per_layer f p =
     fold (\<lambda>g. text_at (flight_center (t_norm f frames_per_layer) g) g) targets p"

text \<open>
  \<open>flew settled n st st'\<close>: from \<open>st\<close> to \<open>st'\<close> the store only grew, the generator is the
  same, and n frames were appended, each a new object that is a flight frame when the
  settled canvas is a drawn canvas. \<open>faded\<close> is the same for fade frames.
\<close>

definition flew :: "nat \<Rightarrow> nat \<Rightarrow> anim_state \<Rightarrow> anim_state \<Rightarrow> bool" where
  "flew settled n st st' =
     (\<exists>news ps. heap st' = heap st @ news \<and> frames st' = frames st @ ps \<and> length ps = n
        \<and> an_rng st' = an_rng st
        \<and> (\<forall>p \<in> set ps. length (heap st) \<le> p \<and> p < length (heap st')
              \<and> (drawn_canvas (heap st ! settled) \<longrightarrow> is_flight_frame (heap st' ! p))))"

definition faded :: "nat \<Rightarrow> anim_state \<Rightarrow> anim_state \<Rightarrow> bool" where
  "faded n st st' =
     (\<exists>news ps. heap st' = heap st @ news \<and> frames st' = frames st @ ps \<and> length ps = n
        \<and> (\<forall>p \<in> set ps. length (heap st) \<le> p \<and> p < length (heap st')
              \<and> is_fade_frame (heap st' ! p)))"

text \<open>
  The invariant of the layer loop: the settled canvas is an object of the store that
  only had glyphs drawn on it, and every frame so far is another object of the store
  and a flight frame.
\<close>

definition canvas_inv :: "nat \<Rightarrow> anim_state \<Rightarrow> bool" where
  "canvas_inv settled st =
     (settled < length (heap st) \<and> drawn_canvas (heap st ! settled)
      \<and> (\<forall>p \<in> set (frames st). p < length (heap st) \<and> p \<noteq> settled
            \<and> is_flight_frame (heap st ! p)))"

section \<open>Properties of the number conversions\<close>

lemma py_int_mono: "x \<le> y \<Longrightarrow> py_int x \<le> py_int y"
proof -
  assume le: "x \<le> y"
  consider "0 \<le> x" | "x < 0" "0 \<le> y" | "y < 0" by linarith
  then show ?thesis
  proof cases
    case 1
    then show ?thesis using le by (simp add: py_int_def floor_mono)
  next
    case 2
    have "\<lceil>x\<rceil> \<le> 0" using 2(1) by (simp add: ceiling_le_iff)
    moreover have "0 \<le> \<lfloor>y\<rfloor>" using 2(2) by simp
    ultimately have "\<lceil>x\<rceil> \<le> \<lfloor>y\<rfloor>" by linarith
    then show ?thesis using 2 by (simp add: py_int_def)
  next
    case 3
    then show ?thesis using le by (simp add: py_int_def ceiling_mono)
  qed
qed

lemma py_int_trunc: "py_int x = trunc_toward_zero x"
  by (auto simp: py_int_def trunc_toward_zero_def ceiling_def abs_if)

section \<open>Properties of the binary64 rounding\<close>

text \<open>
  The rounding is evaluated on a number whose binade is known (\<open>b64_eval\<close>); it is
  monotone, it keeps the sign, it leaves every m * 2^k with |m| < 2^53 as it is, and so
  every integer below 2^53 in magnitude, and it is idempotent.
\<close>

lemma binade_eq:
  assumes "0 < a"
  shows "binade a = e \<longleftrightarrow> 2 powi e \<le> a \<and> a < 2 powi (e + 1)"
proof -
  have "2 powr real_of_int e = (2::real) powi e" "2 powr (real_of_int e + 1) = (2::real) powi (e + 1)"
    using powr_real_of_int' [of 2 e] powr_real_of_int' [of 2 "e + 1"] by simp_all
  then show ?thesis
    using floor_log_eq_powr_iff [of a 2 e] assms by (simp add: binade_def)
qed

lemma round_half_even_of_int [simp]: "round_half_even (real_of_int n) = n"
  by (simp add: round_half_even_def)

lemma round_half_even_bounds: "\<lfloor>x\<rfloor> \<le> round_half_even x \<and> round_half_even x \<le> \<lfloor>x\<rfloor> + 1"
  by (simp add: round_half_even_def Let_def)

lemma round_half_even_mono:
  assumes "x \<le> y"
  shows "round_half_even x \<le> round_half_even y"
proof (cases "\<lfloor>x\<rfloor> = \<lfloor>y\<rfloor>")
  case True
  then have "x - real_of_int \<lfloor>x\<rfloor> \<le> y - real_of_int \<lfloor>y\<rfloor>" using assms by simp
  then show ?thesis using True by (auto simp: round_half_even_def Let_def)
next
  case False
  then have "\<lfloor>x\<rfloor> + 1 \<le> \<lfloor>y\<rfloor>" using assms floor_mono [of x y] by linarith
  then show ?thesis
    using round_half_even_bounds [of x] round_half_even_bounds [of y] by linarith
qed

lemma round_half_even_ge: "real_of_int n \<le> s \<Longrightarrow> n \<le> round_half_even s"
  using round_half_even_mono [of "real_of_int n" s] by simp

lemma round_half_even_le: "s \<le> real_of_int n \<Longrightarrow> round_half_even s \<le> n"
  using round_half_even_mono [of s "real_of_int n"] by simp

lemma powi2_less_imp_less:
  assumes "(2::real) powi m < 2 powi n"
  shows "m < n"
proof (rule ccontr)
  assume "\<not> m < n"
  then have "(2::real) powi n \<le> 2 powi m" by (intro power_int_increasing) simp_all
  then show False using assms by simp
qed

lemma powi2_add: "(2::real) powi m * 2 powi n = 2 powi (m + n)"
  by (simp add: power_int_add)

lemma b64_minus [simp]: "b64 (- x) = - b64 x"
  by (simp add: b64_def sgn_minus)

lemma b64_0 [simp]: "b64 0 = 0"
  by (simp add: b64_def)

lemma b64_eval:
  assumes "2 powi e \<le> a" and "a < 2 powi (e + 1)"
  shows "b64 a = real_of_int (round_half_even (a * 2 powi (52 - e))) * 2 powi (e - 52)"
proof -
  have pos: "0 < a" using assms(1) by (smt (verit) zero_less_power_int)
  then have "binade a = e" using assms by (simp add: binade_eq)
  then show ?thesis using pos by (simp add: b64_def)
qed

lemma b64_range:
  assumes "2 powi e \<le> a" and "a < 2 powi (e + 1)"
  shows "2 powi e \<le> b64 a \<and> b64 a \<le> 2 powi (e + 1)"
proof -
  let ?s = "a * 2 powi (52 - e)"
  define lo hi :: int where "lo = 2 ^ 52" and "hi = 2 ^ 53"
  have lo_r: "real_of_int lo = 2 powi 52" and hi_r: "real_of_int hi = 2 powi 53"
    by (simp_all add: lo_def hi_def)
  have "2 powi e * 2 powi (52 - e) \<le> ?s" using assms(1) by (simp add: mult_right_mono)
  moreover have "(2::real) powi e * 2 powi (52 - e) = 2 powi 52"
    by (simp only: powi2_add) simp
  ultimately have "real_of_int lo \<le> ?s" using lo_r by simp
  then have l: "lo \<le> round_half_even ?s" by (rule round_half_even_ge)
  have "?s \<le> 2 powi (e + 1) * 2 powi (52 - e)" using assms(2) by (simp add: mult_right_mono)
  moreover have "(2::real) powi (e + 1) * 2 powi (52 - e) = 2 powi 53"
    by (simp only: powi2_add) simp
  ultimately have "?s \<le> real_of_int hi" using hi_r by simp
  then have h: "round_half_even ?s \<le> hi" by (rule round_half_even_le)
  have r: "(2::real) powi 52 \<le> real_of_int (round_half_even ?s)"
      "real_of_int (round_half_even ?s) \<le> 2 powi 53"
    using l h lo_r hi_r by (metis of_int_le_iff)+
  have "2 powi 52 * 2 powi (e - 52) \<le> real_of_int (round_half_even ?s) * 2 powi (e - 52)"
    using r(1) by (intro mult_right_mono) simp_all
  moreover have "real_of_int (round_half_even ?s) * 2 powi (e - 52) \<le> 2 powi 53 * 2 powi (e - 52)"
    using r(2) by (intro mult_right_mono) simp_all
  moreover have "(2::real) powi 52 * 2 powi (e - 52) = 2 powi e"
      "(2::real) powi 53 * 2 powi (e - 52) = 2 powi (e + 1)"
    by (simp_all only: powi2_add) (simp_all add: ac_simps)
  ultimately show ?thesis unfolding b64_eval [OF assms] by linarith
qed

lemma b64_mono_pos:
  assumes "0 < x" and "x \<le> y"
  shows "b64 x \<le> b64 y"
proof -
  obtain e where e: "2 powi e \<le> x" "x < 2 powi (e + 1)"
    using binade_eq [OF assms(1), of "binade x"] by auto
  have "0 < y" using assms by simp
  then obtain f where f: "2 powi f \<le> y" "y < 2 powi (f + 1)"
    using binade_eq [of y "binade y"] by auto
  have "(2::real) powi e < 2 powi (f + 1)" using e(1) assms(2) f(2) by linarith
  then have ef: "e \<le> f" using powi2_less_imp_less [of e "f + 1"] by simp
  show ?thesis
  proof (cases "e = f")
    case True
    have "x * 2 powi (52 - e) \<le> y * 2 powi (52 - e)" using assms(2) by (simp add: mult_right_mono)
    then have "round_half_even (x * 2 powi (52 - e)) \<le> round_half_even (y * 2 powi (52 - e))"
      by (rule round_half_even_mono)
    then have "real_of_int (round_half_even (x * 2 powi (52 - e))) * 2 powi (e - 52)
        \<le> real_of_int (round_half_even (y * 2 powi (52 - e))) * 2 powi (e - 52)"
      by (simp add: mult_right_mono)
    then show ?thesis using b64_eval [OF e] b64_eval [OF f [folded True]] by simp
  next
    case False
    then have "e + 1 \<le> f" using ef by simp
    then have "(2::real) powi (e + 1) \<le> 2 powi f" by (simp add: power_int_increasing)
    then show ?thesis using b64_range [OF e] b64_range [OF f] by linarith
  qed
qed

lemma b64_nonneg: "0 \<le> x \<Longrightarrow> 0 \<le> b64 x"
proof -
  assume "0 \<le> x"
  show ?thesis
  proof (cases "x = 0")
    case True then show ?thesis by simp
  next
    case False
    then have p: "0 < x" using \<open>0 \<le> x\<close> by simp
    obtain e where e: "2 powi e \<le> x" "x < 2 powi (e + 1)"
      using binade_eq [OF p, of "binade x"] by auto
    have "(0::real) < 2 powi e" by simp
    then show ?thesis using b64_range [OF e] by linarith
  qed
qed

lemma b64_mono:
  assumes "x \<le> y"
  shows "b64 x \<le> b64 y"
proof -
  consider "0 < x" | "x \<le> 0" "0 \<le> y" | "y < 0" using assms by linarith
  then show ?thesis
  proof cases
    case 1
    then show ?thesis using assms by (rule b64_mono_pos)
  next
    case 2
    have "0 \<le> b64 (- x)" using 2(1) by (intro b64_nonneg) simp
    then show ?thesis using b64_nonneg [OF 2(2)] by simp
  next
    case 3
    then have "b64 (- y) \<le> b64 (- x)" using assms by (intro b64_mono_pos) simp_all
    then show ?thesis by simp
  qed
qed

lemma b64_dyadic_pos:
  assumes "0 < m" and "m < 2 ^ 53"
  shows "b64 (real_of_int m * 2 powi k) = real_of_int m * 2 powi k"
proof -
  let ?a = "real_of_int m * 2 powi k"
  have pos: "0 < ?a" using assms(1) by simp
  obtain e where e: "2 powi e \<le> ?a" "?a < 2 powi (e + 1)"
    using binade_eq [OF pos, of "binade ?a"] by auto
  have "real_of_int m < real_of_int (2 ^ 53)" using assms(2) by (simp only: of_int_less_iff)
  then have "real_of_int m < 2 powi 53" by simp
  then have "?a < 2 powi 53 * 2 powi k" by (intro mult_strict_right_mono) simp_all
  moreover have "(2::real) powi 53 * 2 powi k = 2 powi (53 + k)"
    by (rule powi2_add)
  ultimately have "(2::real) powi e < 2 powi (53 + k)" using e(1) by linarith
  then have "e < 53 + k" by (rule powi2_less_imp_less)
  then have j: "0 \<le> k + 52 - e" by simp
  have "?a * 2 powi (52 - e) = real_of_int m * 2 powi (k + 52 - e)"
    by (simp add: power_int_add power_int_diff)
  also have "\<dots> = real_of_int (m * 2 ^ nat (k + 52 - e))"
    using j by (simp add: power_int_nonneg_exp)
  finally have "round_half_even (?a * 2 powi (52 - e)) = m * 2 ^ nat (k + 52 - e)"
    by (simp only: round_half_even_of_int)
  then have "b64 ?a = real_of_int (m * 2 ^ nat (k + 52 - e)) * 2 powi (e - 52)"
    using b64_eval [OF e] by simp
  also have "\<dots> = real_of_int m * (2 powi (k + 52 - e) * 2 powi (e - 52))"
    using j by (simp add: power_int_nonneg_exp)
  also have "\<dots> = ?a" by (simp add: power_int_add [symmetric])
  finally show ?thesis .
qed

lemma b64_dyadic:
  assumes "\<bar>m\<bar> < 2 ^ 53"
  shows "b64 (real_of_int m * 2 powi k) = real_of_int m * 2 powi k"
proof -
  consider "m = 0" | "0 < m" | "m < 0" by linarith
  then show ?thesis
  proof cases
    case 1 then show ?thesis by simp
  next
    case 2 then show ?thesis using assms by (intro b64_dyadic_pos) simp_all
  next
    case 3
    then have "b64 (real_of_int (- m) * 2 powi k) = real_of_int (- m) * 2 powi k"
      using assms by (intro b64_dyadic_pos) simp_all
    then show ?thesis by simp
  qed
qed

lemma b64_of_int: "\<bar>m\<bar> < 2 ^ 53 \<Longrightarrow> b64 (real_of_int m) = real_of_int m"
  using b64_dyadic [of m 0] by simp

lemma b64_1 [simp]: "b64 1 = 1"
  using b64_of_int [of 1] by simp

lemma b64_mantissa:
  assumes "2 powi e \<le> a" and "a < 2 powi (e + 1)"
  shows "\<exists>n. b64 a = real_of_int n * 2 powi (e - 52) \<and> 2 ^ 52 \<le> n \<and> n \<le> 2 ^ 53"
proof -
  let ?s = "a * 2 powi (52 - e)"
  define lo hi :: int where "lo = 2 ^ 52" and "hi = 2 ^ 53"
  have lo_r: "real_of_int lo = 2 powi 52" and hi_r: "real_of_int hi = 2 powi 53"
    by (simp_all add: lo_def hi_def)
  have "2 powi e * 2 powi (52 - e) \<le> ?s" using assms(1) by (simp add: mult_right_mono)
  moreover have "(2::real) powi e * 2 powi (52 - e) = 2 powi 52"
    by (simp only: powi2_add) simp
  ultimately have "real_of_int lo \<le> ?s" using lo_r by simp
  then have l: "lo \<le> round_half_even ?s" by (rule round_half_even_ge)
  have "?s \<le> 2 powi (e + 1) * 2 powi (52 - e)" using assms(2) by (simp add: mult_right_mono)
  moreover have "(2::real) powi (e + 1) * 2 powi (52 - e) = 2 powi 53"
    by (simp only: powi2_add) simp
  ultimately have "?s \<le> real_of_int hi" using hi_r by simp
  then have h: "round_half_even ?s \<le> hi" by (rule round_half_even_le)
  show ?thesis
    using b64_eval [OF assms] l h unfolding lo_def hi_def by blast
qed

lemma b64_idem_pos:
  assumes "0 < x"
  shows "b64 (b64 x) = b64 x"
proof -
  obtain e where e: "2 powi e \<le> x" "x < 2 powi (e + 1)"
    using binade_eq [OF assms, of "binade x"] by auto
  obtain n where n: "b64 x = real_of_int n * 2 powi (e - 52)" "2 ^ 52 \<le> n" "n \<le> 2 ^ 53"
    using b64_mantissa [OF e] by blast
  show ?thesis
  proof (cases "n = 2 ^ 53")
    case True
    have "real_of_int n = 2 powi 53" using True by simp
    then have "b64 x = 2 powi 53 * 2 powi (e - 52)" using n(1) by simp
    also have "\<dots> = 2 powi (e + 1)" by (simp only: powi2_add) (simp add: ac_simps)
    finally have "b64 x = real_of_int 1 * 2 powi (e + 1)" by simp
    then show ?thesis using b64_dyadic [of 1 "e + 1"] by simp
  next
    case False
    then have "\<bar>n\<bar> < 2 ^ 53" using n(2,3) by simp
    then show ?thesis using b64_dyadic [of n "e - 52"] n(1) by simp
  qed
qed

lemma b64_idem [simp]: "b64 (b64 x) = b64 x"
proof -
  consider "x = 0" | "0 < x" | "x < 0" by linarith
  then show ?thesis
  proof cases
    case 1 then show ?thesis by simp
  next
    case 2 then show ?thesis by (rule b64_idem_pos)
  next
    case 3
    then have "b64 (b64 (- x)) = b64 (- x)" by (intro b64_idem_pos) simp
    then show ?thesis by simp
  qed
qed

lemma b64_numeral [simp]: "b64 (numeral k) = numeral k" if "(numeral k :: int) < 2 ^ 53"
  using b64_of_int [of "numeral k"] that by simp

lemma b64_le_1: "x \<le> 1 \<Longrightarrow> b64 x \<le> 1"
  using b64_mono [of x 1] by simp

lemma b64_ge_1: "1 \<le> x \<Longrightarrow> 1 \<le> b64 x"
  using b64_mono [of 1 x] by simp

lemma b64_half [simp]: "b64 (1 / 2) = 1 / 2"
  using b64_dyadic [of 1 "- 1"] by simp

section \<open>The mapping from luminance to alpha and density\<close>

text \<open>The alpha of a call, from the values of its four float operations.\<close>

lemma luminance_alpha_eval:
  assumes "b64 (lum / 255) = t" and "b64 (1 - t) = s"
    and "b64 (s * b64 (real_of_int alpha_boost_dark)) = p"
    and "b64 (b64 (real_of_int base_alpha) + p) = a"
  shows "fst (luminance_to_alpha_and_density lum base_alpha alpha_boost_dark density_scale)
           = max 0 (min 255 (py_int a))"
  by (simp add: luminance_to_alpha_and_density_def Let_def assms)

text \<open>
  C1, as stated, fails: at luminance 2 with base\_alpha 10 and alpha\_boost\_dark 180 the
  value is 10 + (253/255) * 180 = 188.58..., in binary64 188.58823529411765, which the
  code turns into 188 and rounding to the nearest integer into 189.
\<close>

theorem luminance_alpha_not_rounded:
  "fst (luminance_to_alpha_and_density 2 10 180 (b64 0.7)) = 188 \<and> spec_alpha 2 10 180 = 189"
proof -
  have t: "b64 (2 / 255) = 282578800148737 / 36028797018963968"
    by ((simp)?, subst b64_eval [of "- 7"]) (simp_all add: round_half_even_def)
  have s: "b64 (1 - 282578800148737 / 36028797018963968) = 139633664917247 / 140737488355328"
    by ((simp)?, subst b64_eval [of "- 1"]) (simp_all add: round_half_even_def)
  have p: "b64 (139633664917247 / 140737488355328 * b64 (real_of_int 180)) = 6283514921276115 / 35184372088832"
    by ((simp)?, subst b64_eval [of 7]) (simp_all add: round_half_even_def)
  have a: "b64 (b64 (real_of_int 10) + 6283514921276115 / 35184372088832) = 6635358642164435 / 35184372088832"
    by ((simp)?, subst b64_eval [of 7]) (simp_all add: round_half_even_def)
  have "fst (luminance_to_alpha_and_density 2 10 180 (b64 0.7)) = 188"
    by (simp add: luminance_alpha_eval [OF t s p a] py_int_def)
  moreover have "spec_alpha 2 10 180 = 189"
    by (simp add: spec_alpha_def clamp_def round_def)
  ultimately show ?thesis by simp
qed

text \<open>
  The truncation is applied to the binary64 value, which is not always the exact one:
  at luminance 204 with base\_alpha 10 and alpha\_boost\_dark 180 the exact value is 46,
  the float operations give 45.99999999999999, and the alpha is 45.
\<close>

lemma luminance_alpha_of_binary64_value:
  "fst (luminance_to_alpha_and_density 204 10 180 density_scale) = 45
   \<and> trunc_toward_zero (real_of_int 10 + (1 - 204 / 255) * real_of_int 180) = 46"
proof -
  have t: "b64 (204 / 255) = 3602879701896397 / 4503599627370496"
    by ((simp)?, subst b64_eval [of "- 1"]) (simp_all add: round_half_even_def)
  have s: "b64 (1 - 3602879701896397 / 4503599627370496) = 900719925474099 / 4503599627370496"
    by ((simp)?, subst b64_eval [of "- 3"]) (simp_all add: round_half_even_def)
  have p: "b64 (900719925474099 / 4503599627370496 * b64 (real_of_int 180)) = 5066549580791807 / 140737488355328"
    by ((simp)?, subst b64_eval [of 5]) (simp_all add: round_half_even_def)
  have a: "b64 (b64 (real_of_int 10) + 5066549580791807 / 140737488355328) = 6473924464345087 / 140737488355328"
    by ((simp)?, subst b64_eval [of 5]) (simp_all add: round_half_even_def)
  have "fst (luminance_to_alpha_and_density 204 10 180 density_scale) = 45"
    by (simp add: luminance_alpha_eval [OF t s p a] py_int_def)
  moreover have "trunc_toward_zero (real_of_int 10 + (1 - 204 / 255) * real_of_int 180) = 46"
    by (simp add: trunc_toward_zero_def)
  ultimately show ?thesis by simp
qed

text \<open>
  C1, amended: for every luminance and all parameters, the alpha returned by
  \<open>luminance_to_alpha_and_density\<close> is the binary64 value of
  base\_alpha + (1 - lum/255) * alpha\_boost\_dark, every operation rounded to nearest,
  truncated toward zero and then clamped to [0, 255]; it always lies in [0, 255].
\<close>

theorem luminance_alpha_truncated:
  "fst (luminance_to_alpha_and_density lum base_alpha alpha_boost_dark density_scale) =
     clamp (trunc_toward_zero
              (b64 (b64 (real_of_int base_alpha)
                    + b64 (b64 (1 - b64 (lum / 255)) * b64 (real_of_int alpha_boost_dark))))) 0 255
   \<and> 0 \<le> fst (luminance_to_alpha_and_density lum base_alpha alpha_boost_dark density_scale)
   \<and> fst (luminance_to_alpha_and_density lum base_alpha alpha_boost_dark density_scale) \<le> 255"
  by (simp add: luminance_to_alpha_and_density_def Let_def clamp_def py_int_trunc)

text \<open>
  C5: for non-negative alpha\_boost\_dark and density\_scale (and any base\_alpha), a
  lower luminance gives an alpha and a density that are at least as large.
\<close>

theorem luminance_antitone:
  assumes "0 \<le> alpha_boost_dark" and "0 \<le> density_scale" and "l1 \<le> l2"
  shows "fst (luminance_to_alpha_and_density l2 base_alpha alpha_boost_dark density_scale)
           \<le> fst (luminance_to_alpha_and_density l1 base_alpha alpha_boost_dark density_scale)
       \<and> snd (luminance_to_alpha_and_density l2 base_alpha alpha_boost_dark density_scale)
           \<le> snd (luminance_to_alpha_and_density l1 base_alpha alpha_boost_dark density_scale)"
proof -
  let ?s1 = "b64 (1 - b64 (l1 / 255))" and ?s2 = "b64 (1 - b64 (l2 / 255))"
  let ?k = "b64 (real_of_int alpha_boost_dark)" and ?b = "b64 (real_of_int base_alpha)"
  have "b64 (l1 / 255) \<le> b64 (l2 / 255)"
    using assms(3) by (intro b64_mono) simp
  then have s: "?s2 \<le> ?s1" by (intro b64_mono) simp
  have k: "0 \<le> ?k" using assms(1) by (intro b64_nonneg) simp
  have "?s2 * ?k \<le> ?s1 * ?k" using s k by (rule mult_right_mono)
  then have "b64 (?s2 * ?k) \<le> b64 (?s1 * ?k)" by (rule b64_mono)
  then have "b64 (?b + b64 (?s2 * ?k)) \<le> b64 (?b + b64 (?s1 * ?k))"
    by (intro b64_mono) simp
  then have a: "py_int (b64 (?b + b64 (?s2 * ?k))) \<le> py_int (b64 (?b + b64 (?s1 * ?k)))"
    by (rule py_int_mono)
  have "?s2 * density_scale \<le> ?s1 * density_scale"
    using s assms(2) by (rule mult_right_mono)
  then have d: "b64 (?s2 * density_scale) \<le> b64 (?s1 * density_scale)" by (rule b64_mono)
  show ?thesis
    using a d by (simp add: luminance_to_alpha_and_density_def Let_def)
qed

theorem luminance_antitone_witness:
  "fst (luminance_to_alpha_and_density 200 10 180 (b64 0.7)) = 48
   \<and> fst (luminance_to_alpha_and_density 40 10 180 (b64 0.7)) = 161
   \<and> fst (luminance_to_alpha_and_density 200 10 180 (b64 0.7))
       \<le> fst (luminance_to_alpha_and_density 40 10 180 (b64 0.7))
   \<and> snd (luminance_to_alpha_and_density 200 10 180 (b64 0.7))
       \<le> snd (luminance_to_alpha_and_density 40 10 180 (b64 0.7))"
proof -
  have "fst (luminance_to_alpha_and_density 200 10 180 (b64 0.7))
          \<le> fst (luminance_to_alpha_and_density 40 10 180 (b64 0.7))
      \<and> snd (luminance_to_alpha_and_density 200 10 180 (b64 0.7))
          \<le> snd (luminance_to_alpha_and_density 40 10 180 (b64 0.7))"
    using luminance_antitone [of 180 "b64 0.7" 40 200 10] by (simp add: b64_nonneg)
  moreover have "fst (luminance_to_alpha_and_density 200 10 180 (b64 0.7)) = 48"
  proof -
    have t: "b64 (200 / 255) = 7064470003718425 / 9007199254740992"
      by ((simp)?, subst b64_eval [of "- 1"]) (simp_all add: round_half_even_def)
    have s: "b64 (1 - 7064470003718425 / 9007199254740992) = 1942729251022567 / 9007199254740992"
      by ((simp)?, subst b64_eval [of "- 3"]) (simp_all add: round_half_even_def)
    have p: "b64 (1942729251022567 / 9007199254740992 * b64 (real_of_int 180)) = 2731963009250485 / 70368744177664"
      by ((simp)?, subst b64_eval [of 5]) (simp_all add: round_half_even_def)
    have a: "b64 (b64 (real_of_int 10) + 2731963009250485 / 70368744177664) = 3435650451027125 / 70368744177664"
      by ((simp)?, subst b64_eval [of 5]) (simp_all add: round_half_even_def)
    show ?thesis by (simp add: luminance_alpha_eval [OF t s p a] py_int_def)
  qed
  moreover have "fst (luminance_to_alpha_and_density 40 10 180 (b64 0.7)) = 161"
  proof -
    have t: "b64 (40 / 255) = 1412894000743685 / 9007199254740992"
      by ((simp)?, subst b64_eval [of "- 3"]) (simp_all add: round_half_even_def)
    have s: "b64 (1 - 1412894000743685 / 9007199254740992) = 7594305253997307 / 9007199254740992"
      by ((simp)?, subst b64_eval [of "- 1"]) (simp_all add: round_half_even_def)
    have p: "b64 (7594305253997307 / 9007199254740992 * b64 (real_of_int 180)) = 667468235214607 / 4398046511104"
      by ((simp)?, subst b64_eval [of 7]) (simp_all add: round_half_even_def)
    have a: "b64 (b64 (real_of_int 10) + 667468235214607 / 4398046511104) = 711448700325647 / 4398046511104"
      by ((simp)?, subst b64_eval [of 7]) (simp_all add: round_half_even_def)
    show ?thesis by (simp add: luminance_alpha_eval [OF t s p a] py_int_def)
  qed
  ultimately show ?thesis by blast
qed

section \<open>Sampling the luminance of a cell\<close>

lemma crop_in_bounds:
  assumes "0 \<le> left" "0 \<le> upper" "left \<le> right" "upper \<le> lower"
    "right \<le> int (im_width img)" "lower \<le> int (im_height img)"
  shows "crop img (left, upper, right, lower) =
     Inr (concat (map (\<lambda>j. map (\<lambda>i. getpixel img (nat i) (nat j)) [left..right - 1])
            [upper..lower - 1]))"
proof -
  have eq: "map (\<lambda>j. map (\<lambda>i.
               if 0 \<le> i \<and> i < int (im_width img) \<and> 0 \<le> j \<and> j < int (im_height img)
               then getpixel img (nat i) (nat j) else 0) [left..right - 1]) [upper..lower - 1]
      = map (\<lambda>j. map (\<lambda>i. getpixel img (nat i) (nat j)) [left..right - 1]) [upper..lower - 1]"
    using assms by (intro map_cong refl) auto
  have "\<not> (right < left \<or> lower < upper)" using assms by simp
  then show ?thesis by (simp only: crop_def prod.case eq if_False)
qed

lemma sum_list_const: "(\<forall>p \<in> set ps. p = v) \<Longrightarrow> sum_list ps = v * length ps"
  by (induction ps) auto

text \<open>
  C4: the code departs from the claim, and from its own docstring (``clamped to image
  bounds''), on a cell that lies outside the image on the left (or above it). Only the
  right and the bottom edge are clipped, by the two \<^verbatim>\<open>min\<close>. On the one-pixel image of
  value 200, the cell (-2, 0, 1) contains no pixel of the image, so the clipped region is
  empty and the result should be 255; the crop box (-2, 0, -1, 1) is one position wide
  and reads 0 there, so the pixel list is not empty and the result is 0.
\<close>

theorem sample_outside_not_255:
  "clipped_cell px1 (- 2) 0 1 = [] \<and> sample_region_luminance px1 (- 2) 0 1 = Inr 0"
  by (simp add: clipped_cell_def sample_region_luminance_def crop_def px1_def Let_def)

text \<open>
  A cell that starts beyond the right edge gives a crop box with right < left, which
  the crop refuses: on the same image, the cell (3, 0, 1) has the box (3, 0, 1, 1), and
  the call raises ValueError where the clipped region is empty as well.
\<close>

lemma sample_beyond_right_edge:
  "clipped_cell px1 3 0 1 = [] \<and> sample_region_luminance px1 3 0 1 = Inl ValueError"
  by (simp add: clipped_cell_def sample_region_luminance_def crop_def px1_def Let_def)

text \<open>
  On the cells that start inside the image or on its right or bottom edge
  (0 \<le> x \<le> width, 0 \<le> y \<le> height, step \<ge> 0), which include every cell of the grid
  that \<^verbatim>\<open>draw_layer\<close> and \<^verbatim>\<open>generate_layer_targets\<close> walk, the code does what C4 says:
  it returns the mean of the pixels of the clipped cell, 255 when there is none, and
  exactly v on an image whose pixels all have the value v \<le> 255.
\<close>

lemma sample_region_luminance_mean:
  assumes "0 \<le> x" "0 \<le> y" "x \<le> int (im_width img)" "y \<le> int (im_height img)" "0 \<le> step"
  shows "sample_region_luminance img x y step =
           Inr (if clipped_cell img x y step = [] then 255 else mean (clipped_cell img x y step))
       \<and> ((\<forall>i j. i < im_width img \<longrightarrow> j < im_height img \<longrightarrow> getpixel img i j = v) \<longrightarrow>
            v \<le> 255 \<longrightarrow> x < int (im_width img) \<longrightarrow> y < int (im_height img) \<longrightarrow> 1 \<le> step \<longrightarrow>
            sample_region_luminance img x y step = Inr (real v))"
proof -
  let ?x2 = "min (x + step) (int (im_width img))"
  let ?y2 = "min (y + step) (int (im_height img))"
  have c: "crop img (x, y, ?x2, ?y2) = Inr (clipped_cell img x y step)"
    using assms by (subst crop_in_bounds) (auto simp: clipped_cell_def max_def)
  then have main: "sample_region_luminance img x y step =
           Inr (if clipped_cell img x y step = [] then 255 else mean (clipped_cell img x y step))"
    by (simp add: sample_region_luminance_def Let_def mean_def)
  have "sample_region_luminance img x y step = Inr (real v)"
    if u: "\<forall>i j. i < im_width img \<longrightarrow> j < im_height img \<longrightarrow> getpixel img i j = v"
      and v: "v \<le> 255"
      and b: "x < int (im_width img)" "y < int (im_height img)" "1 \<le> step"
  proof -
    have all: "\<forall>p \<in> set (clipped_cell img x y step). p = v"
      using u assms(1,2) by (auto simp: clipped_cell_def)
    have rows: "[max 0 y..?y2 - 1] \<noteq> []" and cols: "[max 0 x..?x2 - 1] \<noteq> []"
      using b assms(1,2) by (auto simp: upto_Nil)
    have ne: "clipped_cell img x y step \<noteq> []"
    proof -
      obtain j js where j: "[max 0 y..?y2 - 1] = j # js"
        using rows by (cases "[max 0 y..?y2 - 1]") auto
      obtain i ir where i: "[max 0 x..?x2 - 1] = i # ir"
        using cols by (cases "[max 0 x..?x2 - 1]") auto
      show ?thesis unfolding clipped_cell_def j i by simp
    qed
    have "sum_list (clipped_cell img x y step) = v * length (clipped_cell img x y step)"
      using all by (rule sum_list_const)
    then have "real (sum_list (clipped_cell img x y step))
        / real (length (clipped_cell img x y step)) = real v"
      using ne by simp
    moreover have "b64 (real v) = real v"
      using b64_of_int [of "int v"] v by simp
    ultimately have "mean (clipped_cell img x y step) = real v"
      by (simp add: mean_def)
    then show ?thesis using main ne by simp
  qed
  then show ?thesis using main by blast
qed

lemma sample_flat3:
  "sample_region_luminance flat3 1 1 5 = Inr 7 \<and> sample_region_luminance flat3 3 0 5 = Inr 255"
proof -
  have "sample_region_luminance flat3 1 1 5 = Inr (real 7)"
    using sample_region_luminance_mean [THEN conjunct2, of 1 1 flat3 5 7]
    by (simp add: flat3_def)
  moreover have "sample_region_luminance flat3 3 0 5 = Inr 255"
    using sample_region_luminance_mean [THEN conjunct1, of 3 0 flat3 5]
    by (simp add: flat3_def clipped_cell_def)
  ultimately show ?thesis by simp
qed

lemma range0_in_bounds:
  assumes "range0 n step = Inr xs" and "x \<in> set xs"
  shows "0 \<le> x \<and> x < int n"
proof -
  have pos: "0 < step" using assms by (auto simp: range0_def split: if_splits)
  let ?q = "(int n + step - 1) div step"
  obtain k where k: "x = int k * step" "k < nat ?q"
    using assms pos by (auto simp: range0_def)
  have "int k + 1 \<le> ?q" using k(2) by linarith
  then have "(int k + 1) * step \<le> ?q * step" using pos by (simp add: mult_right_mono)
  also have "\<dots> \<le> int n + step - 1"
    using pos by (metis div_mult_mod_eq pos_mod_sign le_add_same_cancel1)
  finally have "int k * step < int n" by (simp add: algebra_simps)
  moreover have "0 \<le> int k * step" using pos by simp
  ultimately show ?thesis using k(1) by simp
qed

lemma sample_in_bounds:
  assumes "0 \<le> x" "x < int (im_width img)" "0 \<le> y" "y < int (im_height img)" "0 < step"
  shows "\<exists>lum. sample_region_luminance img x y step = Inr lum"
proof -
  have "\<exists>ps. crop img (x, y, min (x + step) (int (im_width img)),
                 min (y + step) (int (im_height img))) = Inr ps"
    using assms by (subst crop_in_bounds) auto
  then show ?thesis by (auto simp: sample_region_luminance_def Let_def)
qed

text \<open>Every cell of the grid is sampled without error.\<close>

lemma sample_grid_cell:
  assumes "range0 (im_width img) step = Inr xs" and "range0 (im_height img) step = Inr ys"
    and "x \<in> set xs" and "y \<in> set ys"
  shows "\<exists>lum. sample_region_luminance img x y step = Inr lum"
proof -
  have "0 < step" using assms(1,3) by (auto simp: range0_def split: if_splits)
  then show ?thesis
    using range0_in_bounds [OF assms(1,3)] range0_in_bounds [OF assms(2,4)]
    by (intro sample_in_bounds) simp_all
qed

section \<open>One cell of the planner and of the static renderer\<close>

lemmas cell_defs = random_random_def random_uniform_def choose_word_def random_choice_def Let_def



lemma sample_black1: "0 < step \<Longrightarrow> sample_region_luminance black1 0 0 step = Inr 0"
  by (simp add: sample_region_luminance_def crop_def black1_def Let_def)

text \<open>On a black cell the density is the density scale, rounded.\<close>

lemma density_black: "snd (luminance_to_alpha_and_density 0 base_alpha alpha_boost_dark density_scale)
    = b64 density_scale"
  by (simp add: luminance_to_alpha_and_density_def Let_def)


lemma target_cell_places:
  assumes "sample_region_luminance img_gray x y step = Inr lum"
    and "g 0 \<le> snd (luminance_to_alpha_and_density lum base_alpha alpha_boost_dark density_scale)"
    and "words \<noteq> []"
  shows "\<exists>t g'. target_cell be img_gray font_path step font_size base_alpha alpha_boost_dark
                 density_scale color words base_font x y g = Inr (Some t, g')"
  using assms by (auto simp: target_cell_def cell_defs split: prod.splits)





section \<open>The size variation and the font size\<close>

text \<open>
  The binary64 numbers of the literals 0.9 and 1.2, and their difference, which is
  computed without rounding error.
\<close>

lemma b64_0_9: "b64 0.9 = 8106479329266893 / 9007199254740992"
  by (subst b64_eval [of "- 1"]) (simp_all add: round_half_even_def)

lemma b64_1_2: "b64 1.2 = 5404319552844595 / 4503599627370496"
  by (subst b64_eval [of 0]) (simp_all add: round_half_even_def)

lemma b64_1_2_minus_0_9: "b64 (b64 1.2 - b64 0.9) = 2702159776422297 / 9007199254740992"
  unfolding b64_0_9 b64_1_2
  by ((simp)?, subst b64_eval [of "- 2"]) (simp_all add: round_half_even_def)

lemma random_uniform_eval:
  assumes "b64 (b - a) = d" and "b64 (d * g 0) = m" and "b64 (a + m) = s"
  shows "fst (random_uniform a b g) = s"
  by (simp add: random_uniform_def random_random_def assms)

text \<open>
  \<^verbatim>\<open>random.uniform(0.9, 1.2)\<close> lies between the two literals, both included: the upper
  one is returned for the largest draw below 1.
\<close>

lemma size_variation_bounds:
  assumes "0 \<le> g 0" and "g 0 \<le> 1"
  shows "b64 0.9 \<le> fst (random_uniform (b64 0.9) (b64 1.2) g)
     \<and> fst (random_uniform (b64 0.9) (b64 1.2) g) \<le> b64 1.2"
proof -
  let ?a = "b64 0.9" and ?b = "b64 1.2"
  let ?d = "b64 (?b - ?a)"
  have d0: "0 \<le> ?d" unfolding b64_0_9 b64_1_2 by (intro b64_nonneg) simp
  have "0 \<le> ?d * g 0" using d0 assms(1) by simp
  then have "0 \<le> b64 (?d * g 0)" by (rule b64_nonneg)
  then have "b64 ?a \<le> b64 (?a + b64 (?d * g 0))" by (intro b64_mono) simp
  then have lo: "?a \<le> b64 (?a + b64 (?d * g 0))" by simp
  have "?d * g 0 \<le> ?d * 1" using assms(2) d0 by (rule mult_left_mono)
  then have "b64 (?d * g 0) \<le> b64 ?d" using b64_mono [of "?d * g 0" ?d] by simp
  then have "b64 (?d * g 0) \<le> ?d" by simp
  then have "b64 (?a + b64 (?d * g 0)) \<le> b64 (?a + ?d)" by (intro b64_mono) simp
  moreover have "?a + ?d = ?b" by (simp only: b64_1_2_minus_0_9) (simp only: b64_0_9 b64_1_2)
  ultimately have hi: "b64 (?a + b64 (?d * g 0)) \<le> ?b" by simp
  show ?thesis using lo hi by (simp add: random_uniform_def random_random_def)
qed

lemma size_variation_reaches_1_2:
  "fst (random_uniform (b64 0.9) (b64 1.2) (\<lambda>n. 9007199254740991 / 9007199254740992)) = b64 1.2"
proof -
  have d: "b64 (5404319552844595 / 4503599627370496 - 8106479329266893 / 9007199254740992) = 2702159776422297 / 9007199254740992"
    using b64_1_2_minus_0_9 by (simp only: b64_0_9 b64_1_2)
  have m: "b64 (2702159776422297 / 9007199254740992 * (9007199254740991 / 9007199254740992)) = 5404319552844593 / 18014398509481984"
    by ((simp)?, subst b64_eval [of "- 2"]) (simp_all add: round_half_even_def)
  have s: "b64 (8106479329266893 / 9007199254740992 + 5404319552844593 / 18014398509481984) = 5404319552844595 / 4503599627370496"
    by ((simp)?, subst b64_eval [of 0]) (simp_all add: round_half_even_def)
  show ?thesis
    unfolding b64_0_9 b64_1_2 by (rule random_uniform_eval [OF d m s])
qed

lemma target_cell_font_size:
  assumes "target_cell be img_gray font_path step font_size base_alpha alpha_boost_dark
             density_scale color words (load_font font_path font_size) x y g = Inr (Some t, g')"
  shows "font_pt (glyph_font t) =
           max 6 (trunc_toward_zero
                    (b64 (b64 (real_of_int font_size)
                          * fst (random_uniform (b64 0.9) (b64 1.2) (\<lambda>n. g (n + 4))))))"
  using assms
  by (auto simp: target_cell_def cell_defs load_font_def py_int_trunc numeral_eq_Suc
      split: prod.splits sum.splits if_splits)

lemma draw_cell_font_size:
  assumes "rs_canvas (snd (draw_cell be img_gray font_path font_size words step base_alpha
              alpha_boost_dark density_scale color random_jitter allow_rotation
              (load_font font_path font_size) x y st)) \<noteq> rs_canvas st"
  shows "\<exists>f. drawn_font (rs_canvas (snd (draw_cell be img_gray font_path font_size words step
              base_alpha alpha_boost_dark density_scale color random_jitter allow_rotation
              (load_font font_path font_size) x y st))) = Some f
          \<and> font_pt f = max 6 (trunc_toward_zero (b64 (b64 (real_of_int font_size) *
                fst (random_uniform (b64 0.9) (b64 1.2) (\<lambda>n. rs_rng st (n + 4))))))"
  using assms
  by (auto simp: draw_cell_def cell_defs load_font_def py_int_trunc numeral_eq_Suc
      split: prod.splits sum.splits if_splits option.splits)

text \<open>
  The planner on the black pixel, for the second layer of \<^verbatim>\<open>subtle_soft\<close> (font size
  30) and the draws 0, 7/8, 7/8, 7/8, 7/8: the size variation is
  0.9 + (1.2 - 0.9) * 0.875 = 1.1625 and the product is 34.875, in binary64 as well; the
  glyph gets the font size 34.
\<close>

lemma size_variation_7_8:
  "fst (random_uniform (b64 0.9) (b64 1.2) (\<lambda>n. 7 / 8)) = 2617717283409101 / 2251799813685248"
proof -
  have d: "b64 (5404319552844595 / 4503599627370496 - 8106479329266893 / 9007199254740992) = 2702159776422297 / 9007199254740992"
    using b64_1_2_minus_0_9 by (simp only: b64_0_9 b64_1_2)
  have m: "b64 (2702159776422297 / 9007199254740992 * (7 / 8)) = 1182194902184755 / 4503599627370496"
    by ((simp)?, subst b64_eval [of "- 2"]) (simp_all add: round_half_even_def)
  have s: "b64 (8106479329266893 / 9007199254740992 + 1182194902184755 / 4503599627370496) = 2617717283409101 / 2251799813685248"
    by ((simp)?, subst b64_eval [of 0]) (simp_all add: round_half_even_def)
  have v: "b64 (b64 (real_of_int 30) * (2617717283409101 / 2251799813685248)) = 279 / 8"
    by ((simp)?, subst b64_eval [of 5]) (simp_all add: round_half_even_def)
  show ?thesis
    unfolding b64_0_9 b64_1_2 by (rule random_uniform_eval [OF d m s])
qed

lemma font_size_30_7_8:
  "max 6 (trunc_toward_zero (b64 (b64 (real_of_int 30)
       * fst (random_uniform (b64 0.9) (b64 1.2) (\<lambda>n. 7 / 8))))) = 34"
proof -
  have d: "b64 (5404319552844595 / 4503599627370496 - 8106479329266893 / 9007199254740992) = 2702159776422297 / 9007199254740992"
    using b64_1_2_minus_0_9 by (simp only: b64_0_9 b64_1_2)
  have m: "b64 (2702159776422297 / 9007199254740992 * (7 / 8)) = 1182194902184755 / 4503599627370496"
    by ((simp)?, subst b64_eval [of "- 2"]) (simp_all add: round_half_even_def)
  have s: "b64 (8106479329266893 / 9007199254740992 + 1182194902184755 / 4503599627370496) = 2617717283409101 / 2251799813685248"
    by ((simp)?, subst b64_eval [of 0]) (simp_all add: round_half_even_def)
  have v: "b64 (b64 (real_of_int 30) * (2617717283409101 / 2251799813685248)) = 279 / 8"
    by ((simp)?, subst b64_eval [of 5]) (simp_all add: round_half_even_def)
  show ?thesis
    unfolding size_variation_7_8 v by (simp add: trunc_toward_zero_def)
qed

lemma planner_black1_30:
  "\<exists>t g'. target_cell example_backend black1 ''f.ttf'' 32 30 30 140 (b64 0.9) (0, 0, 0) [[65]]
           (load_font ''f.ttf'' 30) 0 0 (\<lambda>n. if n = 0 then 0 else 7 / 8) = Inr (Some t, g')"
proof -
  have s: "sample_region_luminance black1 0 0 32 = Inr 0" by (simp add: sample_black1)
  show ?thesis
    by (rule target_cell_places [OF s]) (simp_all add: density_black b64_nonneg)
qed

text \<open>
  C7, as stated, fails: with font\_size 30 and the factor 1.1625 the product is 34.875;
  the planner gives the glyph a font of size 34, and rounding to the nearest integer
  gives 35.
\<close>

theorem font_size_not_rounded:
  "(case target_cell example_backend black1 ''f.ttf'' 32 30 30 140 (b64 0.9) (0, 0, 0) [[65]]
           (load_font ''f.ttf'' 30) 0 0 (\<lambda>n. if n = 0 then 0 else 7 / 8) of
      Inr (Some t, g') \<Rightarrow> font_pt (glyph_font t) | _ \<Rightarrow> 0) = 34
   \<and> spec_font_size 30 (fst (random_uniform (b64 0.9) (b64 1.2) (\<lambda>n. 7 / 8))) = 35"
proof -
  let ?g = "\<lambda>n::nat. if n = 0 then 0 else 7 / 8 :: real"
  obtain t g' where r: "target_cell example_backend black1 ''f.ttf'' 32 30 30 140 (b64 0.9)
           (0, 0, 0) [[65]] (load_font ''f.ttf'' 30) 0 0 ?g = Inr (Some t, g')"
    using planner_black1_30 by blast
  have "font_pt (glyph_font t) = max 6 (trunc_toward_zero (b64 (b64 (real_of_int 30)
       * fst (random_uniform (b64 0.9) (b64 1.2) (\<lambda>n. 7 / 8)))))"
    using target_cell_font_size [OF r] by simp
  then have "font_pt (glyph_font t) = 34" by (simp only: font_size_30_7_8)
  moreover have "spec_font_size 30 (fst (random_uniform (b64 0.9) (b64 1.2) (\<lambda>n. 7 / 8))) = 35"
    unfolding size_variation_7_8 by (simp add: spec_font_size_def round_def)
  ultimately show ?thesis using r by simp
qed

text \<open>
  The truncation is applied to the binary64 product, which is not always the exact one:
  with font\_size 20 and the draw (2^52 - 1) / 2^53 the exact product is below 21, the
  float operations give the factor 1.05 and the product 21.0, and the font size is 21.
\<close>

lemma font_size_of_binary64_value:
  "max 6 (trunc_toward_zero (b64 (b64 (real_of_int 20)
       * fst (random_uniform (b64 0.9) (b64 1.2) (\<lambda>n. 4503599627370495 / 9007199254740992))))) = 21
   \<and> max 6 (trunc_toward_zero (real_of_int 20 * (0.9 + (1.2 - 0.9) * (4503599627370495 / 9007199254740992)))) = 20"
proof -
  have d: "b64 (5404319552844595 / 4503599627370496 - 8106479329266893 / 9007199254740992) = 2702159776422297 / 9007199254740992"
    using b64_1_2_minus_0_9 by (simp only: b64_0_9 b64_1_2)
  have m: "b64 (2702159776422297 / 9007199254740992 * (4503599627370495 / 9007199254740992)) = 5404319552844593 / 36028797018963968"
    by ((simp)?, subst b64_eval [of "- 3"]) (simp_all add: round_half_even_def)
  have s: "b64 (8106479329266893 / 9007199254740992 + 5404319552844593 / 36028797018963968) = 4728779608739021 / 4503599627370496"
    by ((simp)?, subst b64_eval [of 0]) (simp_all add: round_half_even_def)
  have v: "b64 (b64 (real_of_int 20) * (4728779608739021 / 4503599627370496)) = 21"
    by ((simp)?, subst b64_eval [of 4]) (simp_all add: round_half_even_def)
  have u: "fst (random_uniform (b64 0.9) (b64 1.2) (\<lambda>n. 4503599627370495 / 9007199254740992)) = 4728779608739021 / 4503599627370496"
    unfolding b64_0_9 b64_1_2 by (rule random_uniform_eval [OF d m s])
  have "max 6 (trunc_toward_zero (b64 (b64 (real_of_int 20)
       * fst (random_uniform (b64 0.9) (b64 1.2) (\<lambda>n. 4503599627370495 / 9007199254740992))))) = 21"
    unfolding u v by (simp add: trunc_toward_zero_def)
  moreover have "max 6 (trunc_toward_zero
      (real_of_int 20 * (0.9 + (1.2 - 0.9) * (4503599627370495 / 9007199254740992)))) = 20"
    by (simp add: trunc_toward_zero_def)
  ultimately show ?thesis by simp
qed

text \<open>
  C7, amended: the size-variation factor is the fifth draw of the cell, taken by
  \<^verbatim>\<open>random.uniform(0.9, 1.2)\<close>, and lies in the closed interval between the binary64
  numbers of 0.9 and 1.2 when the draw lies in [0, 1); the font size of every glyph the
  planner emits, and of every glyph \<^verbatim>\<open>draw_layer\<close> draws, is the binary64 product
  font\_size * factor truncated toward zero, and at least 6.
\<close>

theorem font_size_truncated:
  assumes "0 \<le> g 4" and "g 4 < 1" and "rs_rng st = g"
  shows "b64 0.9 \<le> fst (random_uniform (b64 0.9) (b64 1.2) (\<lambda>n. g (n + 4)))
     \<and> fst (random_uniform (b64 0.9) (b64 1.2) (\<lambda>n. g (n + 4))) \<le> b64 1.2
     \<and> (target_cell be img_gray font_path step font_size base_alpha alpha_boost_dark
           density_scale color words (load_font font_path font_size) x y g = Inr (Some t, g') \<longrightarrow>
         font_pt (glyph_font t) =
           max 6 (trunc_toward_zero
                    (b64 (b64 (real_of_int font_size)
                          * fst (random_uniform (b64 0.9) (b64 1.2) (\<lambda>n. g (n + 4)))))))
     \<and> (rs_canvas (snd (draw_cell be img_gray font_path font_size words step base_alpha
              alpha_boost_dark density_scale color random_jitter allow_rotation
              (load_font font_path font_size) x y st)) \<noteq> rs_canvas st \<longrightarrow>
         (\<exists>f. drawn_font (rs_canvas (snd (draw_cell be img_gray font_path font_size words step
              base_alpha alpha_boost_dark density_scale color random_jitter allow_rotation
              (load_font font_path font_size) x y st))) = Some f
          \<and> font_pt f = max 6 (trunc_toward_zero (b64 (b64 (real_of_int font_size) *
                fst (random_uniform (b64 0.9) (b64 1.2) (\<lambda>n. g (n + 4))))))))"
proof -
  have b: "b64 0.9 \<le> fst (random_uniform (b64 0.9) (b64 1.2) (\<lambda>n. g (n + 4)))
     \<and> fst (random_uniform (b64 0.9) (b64 1.2) (\<lambda>n. g (n + 4))) \<le> b64 1.2"
    using size_variation_bounds [of "\<lambda>n. g (n + 4)"] assms(1,2) by simp
  show ?thesis
    using b target_cell_font_size [of be img_gray font_path step font_size base_alpha
        alpha_boost_dark density_scale color words x y g t g']
      draw_cell_font_size [of be img_gray font_path font_size words step base_alpha
        alpha_boost_dark density_scale color random_jitter allow_rotation x y st] assms(3)
    by blast
qed

theorem font_size_truncated_witness:
  "\<exists>t g'. target_cell example_backend black1 ''f.ttf'' 32 30 30 140 (b64 0.9) (0, 0, 0) [[65]]
           (load_font ''f.ttf'' 30) 0 0 (\<lambda>n. if n = 0 then 0 else 7 / 8) = Inr (Some t, g')
      \<and> font_pt (glyph_font t) = 34"
proof -
  let ?g = "\<lambda>n::nat. if n = 0 then 0 else 7 / 8 :: real"
  obtain t g' where r: "target_cell example_backend black1 ''f.ttf'' 32 30 30 140 (b64 0.9)
           (0, 0, 0) [[65]] (load_font ''f.ttf'' 30) 0 0 ?g = Inr (Some t, g')"
    using planner_black1_30 by blast
  have "font_pt (glyph_font t) = max 6 (trunc_toward_zero (b64 (b64 (real_of_int 30)
       * fst (random_uniform (b64 0.9) (b64 1.2) (\<lambda>n. 7 / 8)))))"
    using font_size_truncated [THEN conjunct2, THEN conjunct2, THEN conjunct1, rule_format,
        OF _ _ _ r, of "\<lparr>rs_rng = ?g, rs_canvas = Original, rs_sampled = []\<rparr>"]
    by simp
  then have "font_pt (glyph_font t) = 34" by (simp only: font_size_30_7_8)
  then show ?thesis using r by blast
qed

section \<open>The jitter of the planner\<close>



section \<open>Drawing a layer with an empty vocabulary\<close>

lemma density_bounds:
  assumes "0 \<le> lum" and "lum \<le> 255" and "0 \<le> density_scale"
  shows "0 \<le> snd (luminance_to_alpha_and_density lum base_alpha alpha_boost_dark density_scale)
     \<and> snd (luminance_to_alpha_and_density lum base_alpha alpha_boost_dark density_scale)
         \<le> b64 density_scale"
proof -
  let ?t = "b64 (lum / 255)"
  let ?s = "b64 (1 - ?t)"
  have "0 \<le> ?t" using assms(1) by (intro b64_nonneg) simp
  moreover have "?t \<le> 1" using assms(2) by (intro b64_le_1) simp
  ultimately have s: "0 \<le> ?s" "?s \<le> 1"
    by (simp_all add: b64_nonneg b64_le_1)
  have "0 \<le> ?s * density_scale" using s(1) assms(3) by simp
  then have lo: "0 \<le> b64 (?s * density_scale)" by (rule b64_nonneg)
  have "?s * density_scale \<le> 1 * density_scale" using s(2) assms(3) by (rule mult_right_mono)
  then have hi: "b64 (?s * density_scale) \<le> b64 density_scale"
    using b64_mono [of "?s * density_scale" density_scale] by simp
  show ?thesis using lo hi by (simp add: luminance_to_alpha_and_density_def Let_def)
qed

lemma density_white: "snd (luminance_to_alpha_and_density 255 base_alpha alpha_boost_dark density_scale)
    = 0"
  by (simp add: luminance_to_alpha_and_density_def Let_def)

lemma thin_cells_append:
  "thin_cells d (cs @ cs') st =
     (case thin_cells d cs st of
        (Inl e, st') \<Rightarrow> (Inl e, st')
      | (Inr u, st') \<Rightarrow> thin_cells d cs' st')"
  by (induction cs arbitrary: st) (simp_all add: Let_def)

lemma thin_cells_canvas: "rs_canvas (snd (thin_cells d cs st)) = rs_canvas st"
  by (induction cs arbitrary: st) (simp_all add: Let_def)

lemma thin_cells_all_skipped:
  assumes "\<forall>i < length cs. rs_rng st i > d (cs ! i)"
  shows "fst (thin_cells d cs st) = Inr ()
     \<and> rs_sampled (snd (thin_cells d cs st)) = rs_sampled st @ cs"
  using assms
proof (induction cs arbitrary: st)
  case Nil
  then show ?case by simp
next
  case (Cons c cs)
  let ?st' = "st\<lparr>rs_sampled := rs_sampled st @ [c], rs_rng := \<lambda>n. rs_rng st (Suc n)\<rparr>"
  have 0: "rs_rng st 0 > d c" using Cons.prems by auto
  have "\<forall>i < length cs. rs_rng ?st' i > d (cs ! i)" using Cons.prems by auto
  then have "fst (thin_cells d cs ?st') = Inr ()
     \<and> rs_sampled (snd (thin_cells d cs ?st')) = rs_sampled ?st' @ cs"
    by (rule Cons.IH)
  then show ?case using 0 by (simp add: Let_def)
qed

lemma thin_cells_first_kept:
  assumes "k < length cs" and "\<forall>i < k. rs_rng st i > d (cs ! i)" and "\<not> rs_rng st k > d (cs ! k)"
  shows "fst (thin_cells d cs st) = Inl IndexError
     \<and> rs_sampled (snd (thin_cells d cs st)) = rs_sampled st @ take (Suc k) cs"
  using assms
proof (induction cs arbitrary: st k)
  case Nil
  then show ?case by simp
next
  case (Cons c cs)
  let ?st' = "st\<lparr>rs_sampled := rs_sampled st @ [c], rs_rng := \<lambda>n. rs_rng st (Suc n)\<rparr>"
  show ?case
  proof (cases k)
    case 0
    then show ?thesis using Cons.prems by (simp add: Let_def)
  next
    case (Suc j)
    have 0: "rs_rng st 0 > d c" using Cons.prems(2) Suc by auto
    have j: "j < length cs" using Cons.prems(1) Suc by simp
    have sk: "\<forall>i < j. rs_rng ?st' i > d (cs ! i)" using Cons.prems(2) Suc by auto
    have kept: "\<not> rs_rng ?st' j > d (cs ! j)" using Cons.prems(3) Suc by simp
    have "fst (thin_cells d cs ?st') = Inl IndexError
       \<and> rs_sampled (snd (thin_cells d cs ?st')) = rs_sampled ?st' @ take (Suc j) cs"
      using j sk kept by (rule Cons.IH)
    then show ?thesis using 0 Suc by (simp add: Let_def)
  qed
qed

text \<open>With an empty vocabulary, a cell that is sampled without error is only thinned.\<close>

lemma draw_cell_empty_thin:
  assumes "sample_region_luminance img_gray x y step = Inr lum"
  shows "draw_cell be img_gray font_path font_size [] step base_alpha alpha_boost_dark
           density_scale color random_jitter allow_rotation base_font x y st
         = thin_cells (cell_density img_gray step base_alpha alpha_boost_dark density_scale)
             [(x, y)] st"
  using assms by (simp add: draw_cell_def cell_defs cell_density_def split: prod.splits)

lemma draw_row_thin:
  assumes "\<And>x st. x \<in> set xs \<Longrightarrow> cell x y st = thin_cells d [(x, y)] st"
  shows "draw_row cell xs y st = thin_cells d (map (\<lambda>x. (x, y)) xs) st"
  using assms
proof (induction xs arbitrary: st)
  case Nil
  then show ?case by simp
next
  case (Cons x xs)
  have c: "cell x y st = thin_cells d [(x, y)] st" using Cons.prems by simp
  have ih: "draw_row cell xs y st' = thin_cells d (map (\<lambda>x. (x, y)) xs) st'" for st'
    using Cons.IH Cons.prems by simp
  show ?case by (simp add: c ih Let_def)
qed

lemma draw_rows_thin:
  assumes "range0 w step = Inr xs"
    and "\<And>x y st. x \<in> set xs \<Longrightarrow> y \<in> set ys \<Longrightarrow> cell x y st = thin_cells d [(x, y)] st"
  shows "draw_rows cell w step ys st
         = thin_cells d (concat (map (\<lambda>y. map (\<lambda>x. (x, y)) xs) ys)) st"
  using assms(2)
proof (induction ys arbitrary: st)
  case Nil
  then show ?case by simp
next
  case (Cons y ys)
  have row: "draw_row cell xs y st = thin_cells d (map (\<lambda>x. (x, y)) xs) st"
    using Cons.prems by (intro draw_row_thin) simp
  have ih: "draw_rows cell w step ys st'
      = thin_cells d (concat (map (\<lambda>y. map (\<lambda>x. (x, y)) xs) ys)) st'" for st'
    using Cons.IH Cons.prems by simp
  show ?case
    by (simp add: assms(1) row ih thin_cells_append split: prod.splits sum.splits)
qed

lemma draw_layer_empty_thin:
  assumes "step \<noteq> 0"
  shows "draw_layer be img_gray font_path font_size [] step base_alpha alpha_boost_dark
           density_scale color random_jitter allow_rotation st
         = thin_cells (cell_density img_gray step base_alpha alpha_boost_dark density_scale)
             (grid_cells img_gray step) st"
proof -
  obtain ys where ys: "range0 (im_height img_gray) step = Inr ys"
    using assms by (cases "step < 0") (simp_all add: range0_def)
  obtain xs where xs: "range0 (im_width img_gray) step = Inr xs"
    using assms by (cases "step < 0") (simp_all add: range0_def)
  have cell: "draw_cell be img_gray font_path font_size [] step base_alpha alpha_boost_dark
           density_scale color random_jitter allow_rotation (load_font font_path font_size) x y st'
         = thin_cells (cell_density img_gray step base_alpha alpha_boost_dark density_scale)
             [(x, y)] st'"
    if xy: "x \<in> set xs" "y \<in> set ys" for x y st'
  proof -
    obtain lum where "sample_region_luminance img_gray x y step = Inr lum"
      using sample_grid_cell [OF xs ys xy] by blast
    then show ?thesis by (rule draw_cell_empty_thin)
  qed
  have "draw_rows (draw_cell be img_gray font_path font_size [] step base_alpha alpha_boost_dark
           density_scale color random_jitter allow_rotation (load_font font_path font_size))
         (im_width img_gray) step ys st
      = thin_cells (cell_density img_gray step base_alpha alpha_boost_dark density_scale)
          (concat (map (\<lambda>y. map (\<lambda>x. (x, y)) xs) ys)) st"
    using xs cell by (rule draw_rows_thin)
  then show ?thesis by (simp add: draw_layer_def grid_cells_def xs ys)
qed

lemma grid_cells_1x1:
  assumes "im_width img = 1" and "im_height img = 1" and "0 < step"
  shows "grid_cells img step = [(0, 0)]"
proof -
  have "(1 + step - 1) div step = 1" using assms(3) by simp
  then show ?thesis using assms by (simp add: grid_cells_def range0_def)
qed

lemma sample_white1: "0 < step \<Longrightarrow> sample_region_luminance white1 0 0 step = Inr 255"
  by (simp add: sample_region_luminance_def crop_def white1_def Let_def)

lemma b64_0_7_ge_half: "1 / 2 \<le> b64 0.7"
  using b64_mono [of "1 / 2" "0.7"] by simp

text \<open>
  C9, as stated, fails. With an empty vocabulary, \<^verbatim>\<open>draw_layer\<close> on a black pixel
  raises IndexError only when \<^verbatim>\<open>choose_word\<close> is reached, after the luminance of the
  cell (0, 0) has been sampled; and on a white pixel (density 0, draw 0.5) every cell is
  skipped and the layer returns without any error.
\<close>

theorem empty_vocabulary_not_rejected_first:
  "fst (draw_layer example_backend black1 ''f.ttf'' 50 [] 50 10 180 (b64 0.7) (0, 0, 0) 0.4 False
          blank_state) = Inl IndexError
   \<and> rs_sampled (snd (draw_layer example_backend black1 ''f.ttf'' 50 [] 50 10 180 (b64 0.7)
          (0, 0, 0) 0.4 False blank_state)) = [(0, 0)]
   \<and> fst (draw_layer example_backend white1 ''f.ttf'' 50 [] 50 10 180 (b64 0.7) (0, 0, 0) 0.4 False
          blank_state) = Inr ()"
proof -
  have gb: "grid_cells black1 50 = [(0, 0)]"
    by (rule grid_cells_1x1) (simp_all add: black1_def)
  have gw: "grid_cells white1 50 = [(0, 0)]"
    by (rule grid_cells_1x1) (simp_all add: white1_def)
  have db: "cell_density black1 50 10 180 (b64 0.7) (0, 0) = b64 0.7"
    by (simp add: cell_density_def sample_black1 density_black)
  have dw: "cell_density white1 50 10 180 (b64 0.7) (0, 0) = 0"
    by (simp add: cell_density_def sample_white1 density_white)
  have kept: "\<not> 1 / 2 > b64 0.7" using b64_0_7_ge_half by simp
  have "draw_layer example_backend black1 ''f.ttf'' 50 [] 50 10 180 (b64 0.7) (0, 0, 0) 0.4 False
          blank_state
      = thin_cells (cell_density black1 50 10 180 (b64 0.7)) [(0, 0)] blank_state"
    using draw_layer_empty_thin [of 50 example_backend black1] gb by simp
  then have b: "fst (draw_layer example_backend black1 ''f.ttf'' 50 [] 50 10 180 (b64 0.7)
          (0, 0, 0) 0.4 False blank_state) = Inl IndexError
      \<and> rs_sampled (snd (draw_layer example_backend black1 ''f.ttf'' 50 [] 50 10 180 (b64 0.7)
          (0, 0, 0) 0.4 False blank_state)) = [(0, 0)]"
    using kept by (simp add: Let_def db blank_state_def)
  have "draw_layer example_backend white1 ''f.ttf'' 50 [] 50 10 180 (b64 0.7) (0, 0, 0) 0.4 False
          blank_state
      = thin_cells (cell_density white1 50 10 180 (b64 0.7)) [(0, 0)] blank_state"
    using draw_layer_empty_thin [of 50 example_backend white1] gw by simp
  then have "fst (draw_layer example_backend white1 ''f.ttf'' 50 [] 50 10 180 (b64 0.7)
          (0, 0, 0) 0.4 False blank_state) = Inr ()"
    by (simp add: Let_def dw blank_state_def)
  then show ?thesis using b by simp
qed

text \<open>
  C9, amended: if the vocabulary is empty, \<^verbatim>\<open>draw_layer\<close> never places a glyph (the
  canvas stays as it was), and nothing is validated before the work begins. A step of 0
  raises ValueError before any cell is sampled. Otherwise the layer walks the cells of the
  grid row by row, samples the luminance of each and takes one draw for it: the cells
  whose draw exceeds their density are skipped, and at the first cell k that is not
  skipped \<^verbatim>\<open>choose_word\<close> raises IndexError, when exactly the cells up to k have been
  sampled; when every cell is skipped, all cells have been sampled and no error is raised.
\<close>

theorem empty_vocabulary_draws_nothing:
  "(let cells = grid_cells img_gray step;
        d = cell_density img_gray step base_alpha alpha_boost_dark density_scale;
        r = draw_layer be img_gray font_path font_size [] step base_alpha alpha_boost_dark
              density_scale color random_jitter allow_rotation st
    in rs_canvas (snd r) = rs_canvas st
     \<and> (step = 0 \<longrightarrow> r = (Inl ValueError, st))
     \<and> (step \<noteq> 0 \<longrightarrow>
          (\<forall>k < length cells.
             (\<forall>i < k. rs_rng st i > d (cells ! i)) \<and> \<not> rs_rng st k > d (cells ! k) \<longrightarrow>
               fst r = Inl IndexError
               \<and> rs_sampled (snd r) = rs_sampled st @ take (Suc k) cells)
          \<and> ((\<forall>i < length cells. rs_rng st i > d (cells ! i)) \<longrightarrow>
               fst r = Inr () \<and> rs_sampled (snd r) = rs_sampled st @ cells)))"
proof (cases "step = 0")
  case True
  then have "draw_layer be img_gray font_path font_size [] step base_alpha alpha_boost_dark
              density_scale color random_jitter allow_rotation st = (Inl ValueError, st)"
    by (simp add: draw_layer_def range0_def)
  then show ?thesis using True by (simp add: Let_def)
next
  case False
  let ?d = "cell_density img_gray step base_alpha alpha_boost_dark density_scale"
  let ?cells = "grid_cells img_gray step"
  have e: "draw_layer be img_gray font_path font_size [] step base_alpha alpha_boost_dark
              density_scale color random_jitter allow_rotation st = thin_cells ?d ?cells st"
    using False by (rule draw_layer_empty_thin)
  have 1: "rs_canvas (snd (thin_cells ?d ?cells st)) = rs_canvas st"
    by (rule thin_cells_canvas)
  have 2: "fst (thin_cells ?d ?cells st) = Inl IndexError
      \<and> rs_sampled (snd (thin_cells ?d ?cells st)) = rs_sampled st @ take (Suc k) ?cells"
    if "k < length ?cells" "\<forall>i < k. rs_rng st i > ?d (?cells ! i)"
      "\<not> rs_rng st k > ?d (?cells ! k)" for k
    using that by (rule thin_cells_first_kept)
  have 3: "fst (thin_cells ?d ?cells st) = Inr ()
      \<and> rs_sampled (snd (thin_cells ?d ?cells st)) = rs_sampled st @ ?cells"
    if "\<forall>i < length ?cells. rs_rng st i > ?d (?cells ! i)"
    using that by (rule thin_cells_all_skipped)
  show ?thesis unfolding Let_def e using False 1 2 3 by blast
qed

text \<open>
  On the 3 by 3 image of value 7 with step 2 and density scale 0.5, the grid has the
  cells (0, 0), (2, 0), (0, 2), (2, 2) and every density lies in [0, 0.5]: with the draws
  7/8, 7/8, 0 the first two cells are skipped and the third raises IndexError.
\<close>

theorem empty_vocabulary_draws_nothing_witness:
  "fst (draw_layer example_backend flat3 ''f.ttf'' 18 [] 2 10 180 0.5 (0, 0, 0) 0.4 False
          flat3_state) = Inl IndexError
   \<and> rs_sampled (snd (draw_layer example_backend flat3 ''f.ttf'' 18 [] 2 10 180 0.5 (0, 0, 0) 0.4
          False flat3_state)) = [(0, 0), (2, 0), (0, 2)]
   \<and> rs_canvas (snd (draw_layer example_backend flat3 ''f.ttf'' 18 [] 2 10 180 0.5 (0, 0, 0) 0.4
          False flat3_state)) = New (3, 3) (255, 255, 255, 255)"
proof -
  let ?d = "cell_density flat3 2 10 180 0.5"
  have r: "range0 3 2 = Inr [0, 2]"
    by (simp add: range0_def upt_rec)
  have g: "grid_cells flat3 2 = [(0, 0), (2, 0), (0, 2), (2, 2)]"
    by (simp add: grid_cells_def flat3_def r)
  have s: "sample_region_luminance flat3 x y 2 = Inr 7"
    if "x \<in> {0, 2}" "y \<in> {0, 2}" for x y
    using sample_region_luminance_mean [THEN conjunct2, of x y flat3 2 7] that
    by (auto simp: flat3_def)
  have d: "0 \<le> ?d c \<and> ?d c \<le> 1 / 2" if "c \<in> set (grid_cells flat3 2)" for c
  proof -
    have "sample_region_luminance flat3 (fst c) (snd c) 2 = Inr 7"
      using that g s by auto
    then show ?thesis
      using density_bounds [of 7 "0.5" 10 180] by (simp add: cell_density_def)
  qed
  have d0: "?d (0, 0) \<le> 1 / 2" and d1: "?d (2, 0) \<le> 1 / 2" and d2: "0 \<le> ?d (0, 2)"
    using d g by simp_all
  have sk: "\<forall>i < 2. rs_rng flat3_state i > ?d (grid_cells flat3 2 ! i)"
  proof (intro allI impI)
    fix i :: nat assume "i < 2"
    then consider "i = 0" | "i = 1" by linarith
    then show "rs_rng flat3_state i > ?d (grid_cells flat3 2 ! i)"
      using d0 d1 by cases (simp_all add: g flat3_state_def)
  qed
  have kept: "\<not> rs_rng flat3_state 2 > ?d (grid_cells flat3 2 ! 2)"
    using d2 by (simp add: g flat3_state_def)
  have k: "(2::nat) < length (grid_cells flat3 2)" by (simp add: g)
  note t = empty_vocabulary_draws_nothing [of flat3 2 10 180 "0.5" example_backend "''f.ttf''"
      18 "(0, 0, 0)" "0.4" False flat3_state, unfolded Let_def]
  have "fst (draw_layer example_backend flat3 ''f.ttf'' 18 [] 2 10 180 0.5 (0, 0, 0) 0.4 False
          flat3_state) = Inl IndexError
      \<and> rs_sampled (snd (draw_layer example_backend flat3 ''f.ttf'' 18 [] 2 10 180 0.5 (0, 0, 0)
          0.4 False flat3_state)) = rs_sampled flat3_state @ take (Suc 2) (grid_cells flat3 2)"
    using t [THEN conjunct2, THEN conjunct2] k sk kept by auto
  moreover have "rs_canvas (snd (draw_layer example_backend flat3 ''f.ttf'' 18 [] 2 10 180 0.5
          (0, 0, 0) 0.4 False flat3_state)) = rs_canvas flat3_state"
    using t [THEN conjunct1] .
  ultimately show ?thesis by (simp add: g flat3_state_def)
qed

section \<open>The animation: the store, the frames and the settled canvas\<close>

lemma alloc_simps [simp]:
  "fst (alloc p st) = length (heap st)"
  "heap (snd (alloc p st)) = heap st @ [p]"
  "frames (snd (alloc p st)) = frames st"
  "an_rng (snd (alloc p st)) = an_rng st"
  by (simp_all add: alloc_def)

lemma draw_flying_glyph_eq:
  "draw_flying_glyph a t g st =
     st\<lparr>heap := (heap st)[a := text_at (flight_center t g) g (heap st ! a)]\<rparr>"
  by (simp add: draw_flying_glyph_def draw_text_def text_at_def Let_def split: prod.splits)

lemma commit_glyph_eq:
  "commit_glyph a g st =
     st\<lparr>heap := (heap st)[a := text_at (glyph_target_pos g) g (heap st ! a)]\<rparr>"
  by (simp add: commit_glyph_def draw_text_def text_at_def Let_def split: prod.splits)

lemma fold_update_heap:
  assumes "a < length (heap st)"
  shows "fold (\<lambda>g s. s\<lparr>heap := (heap s)[a := F g (heap s ! a)]\<rparr>) gs st =
           st\<lparr>heap := (heap st)[a := fold F gs (heap st ! a)]\<rparr>"
  using assms
proof (induction gs arbitrary: st)
  case Nil
  then show ?case by simp
next
  case (Cons g gs)
  then show ?case by simp
qed

lemma fold_draw_flying:
  "a < length (heap st) \<Longrightarrow>
   fold (draw_flying_glyph a t) gs st =
     st\<lparr>heap := (heap st)[a := fold (\<lambda>g. text_at (flight_center t g) g) gs (heap st ! a)]\<rparr>"
  using fold_update_heap [of a st "\<lambda>g. text_at (flight_center t g) g" gs]
  by (simp add: draw_flying_glyph_eq [abs_def])

lemma fold_commit:
  "a < length (heap st) \<Longrightarrow>
   fold (commit_glyph a) gs st =
     st\<lparr>heap := (heap st)[a := fold (\<lambda>g. text_at (glyph_target_pos g) g) gs (heap st ! a)]\<rparr>"
  using fold_update_heap [of a st "\<lambda>g. text_at (glyph_target_pos g) g" gs]
  by (simp add: commit_glyph_eq [abs_def])

lemma drawn_canvas_fold_text_at:
  "drawn_canvas p \<Longrightarrow> drawn_canvas (fold (\<lambda>g. text_at (c g) g) gs p)"
  by (induction gs arbitrary: p) (simp_all add: text_at_def)

lemma flight_frame_eq:
  assumes "settled < length (heap st)"
  shows "flight_frame settled targets fpl f st =
    (let F = flight_picture targets fpl f (heap st ! settled);
         r = b64 (b64 1.2 * b64 (1 - t_norm f fpl))
     in if r > b64 0.1
        then st\<lparr>heap := heap st @ [F, GaussianBlur r F, ConvertP (GaussianBlur r F)],
                frames := frames st @ [length (heap st) + 2]\<rparr>
        else st\<lparr>heap := heap st @ [F, ConvertP F],
                frames := frames st @ [length (heap st) + 1]\<rparr>)"
  using assms
  by (simp add: flight_frame_def Let_def alloc_def fold_draw_flying flight_picture_def
      nth_append split: prod.splits)

lemma is_flight_frame_ConvertP_blur: "drawn_canvas F \<Longrightarrow> is_flight_frame (ConvertP (GaussianBlur r F))"
  by simp

lemma is_flight_frame_ConvertP: "drawn_canvas F \<Longrightarrow> is_flight_frame (ConvertP F)"
  by (cases F) simp_all

lemma flight_frame_flew:
  assumes "settled < length (heap st)"
  shows "flew settled 1 st (flight_frame settled targets fpl f st)"
proof -
  let ?F = "flight_picture targets fpl f (heap st ! settled)"
  let ?r = "b64 (b64 1.2 * b64 (1 - t_norm f fpl))"
  have d: "drawn_canvas (heap st ! settled) \<Longrightarrow> drawn_canvas ?F"
    unfolding flight_picture_def by (rule drawn_canvas_fold_text_at)
  show ?thesis
  proof (cases "?r > b64 0.1")
    case True
    then have e: "flight_frame settled targets fpl f st =
        st\<lparr>heap := heap st @ [?F, GaussianBlur ?r ?F, ConvertP (GaussianBlur ?r ?F)],
           frames := frames st @ [length (heap st) + 2]\<rparr>"
      using flight_frame_eq [OF assms, of targets fpl f] by (simp add: Let_def)
    show ?thesis unfolding flew_def e
      apply (rule exI [of _ "[?F, GaussianBlur ?r ?F, ConvertP (GaussianBlur ?r ?F)]"])
      apply (rule exI [of _ "[length (heap st) + 2]"])
      using d by (simp add: nth_append)
  next
    case False
    then have e: "flight_frame settled targets fpl f st =
        st\<lparr>heap := heap st @ [?F, ConvertP ?F], frames := frames st @ [length (heap st) + 1]\<rparr>"
      using flight_frame_eq [OF assms, of targets fpl f] by (simp add: Let_def)
    show ?thesis unfolding flew_def e
      apply (rule exI [of _ "[?F, ConvertP ?F]"])
      apply (rule exI [of _ "[length (heap st) + 1]"])
      using d by (simp add: nth_append is_flight_frame_ConvertP)
  qed
qed

lemma flew_refl: "flew settled 0 st st"
  by (simp add: flew_def)

lemma flew_trans:
  assumes "settled < length (heap st)" and "flew settled n st st1" and "flew settled m st1 st2"
  shows "flew settled (n + m) st st2"
proof -
  obtain n1 p1 where 1: "heap st1 = heap st @ n1" "frames st1 = frames st @ p1" "length p1 = n"
      "an_rng st1 = an_rng st"
      "\<forall>p \<in> set p1. length (heap st) \<le> p \<and> p < length (heap st1)
              \<and> (drawn_canvas (heap st ! settled) \<longrightarrow> is_flight_frame (heap st1 ! p))"
    using assms(2) unfolding flew_def by blast
  obtain n2 p2 where 2: "heap st2 = heap st1 @ n2" "frames st2 = frames st1 @ p2" "length p2 = m"
      "an_rng st2 = an_rng st1"
      "\<forall>p \<in> set p2. length (heap st1) \<le> p \<and> p < length (heap st2)
              \<and> (drawn_canvas (heap st1 ! settled) \<longrightarrow> is_flight_frame (heap st2 ! p))"
    using assms(3) unfolding flew_def by blast
  have s: "heap st1 ! settled = heap st ! settled"
    using assms(1) 1(1) by (simp add: nth_append)
  have "\<forall>p \<in> set (p1 @ p2). length (heap st) \<le> p \<and> p < length (heap st2)
              \<and> (drawn_canvas (heap st ! settled) \<longrightarrow> is_flight_frame (heap st2 ! p))"
  proof
    fix p assume "p \<in> set (p1 @ p2)"
    then consider "p \<in> set p1" | "p \<in> set p2" by auto
    then show "length (heap st) \<le> p \<and> p < length (heap st2)
              \<and> (drawn_canvas (heap st ! settled) \<longrightarrow> is_flight_frame (heap st2 ! p))"
    proof cases
      case 1
      then have a: "length (heap st) \<le> p" "p < length (heap st1)"
        "drawn_canvas (heap st ! settled) \<longrightarrow> is_flight_frame (heap st1 ! p)"
        using \<open>\<forall>p \<in> set p1. _\<close> by auto
      have "heap st2 ! p = heap st1 ! p" using a(2) 2(1) by (simp add: nth_append)
      then show ?thesis using a 2(1) by simp
    next
      case 2
      then have a: "length (heap st1) \<le> p" "p < length (heap st2)"
        "drawn_canvas (heap st1 ! settled) \<longrightarrow> is_flight_frame (heap st2 ! p)"
        using \<open>\<forall>p \<in> set p2. _\<close> by auto
      then show ?thesis using s \<open>heap st1 = heap st @ n1\<close> by simp
    qed
  qed
  then show ?thesis unfolding flew_def
    apply (intro exI [of _ "n1 @ n2"] exI [of _ "p1 @ p2"])
    using 1 2 by simp
qed

lemma flight_loop_flew:
  assumes "settled < length (heap st)"
  shows "flew settled (length fs) st (fold (flight_frame settled targets fpl) fs st)"
  using assms
proof (induction fs arbitrary: st)
  case Nil
  then show ?case by (simp add: flew_refl)
next
  case (Cons f fs)
  let ?st1 = "flight_frame settled targets fpl f st"
  have 1: "flew settled 1 st ?st1" using Cons.prems by (rule flight_frame_flew)
  then have "settled < length (heap ?st1)" using Cons.prems unfolding flew_def by auto
  then have "flew settled (length fs) ?st1 (fold (flight_frame settled targets fpl) fs ?st1)"
    by (rule Cons.IH)
  then have "flew settled (1 + length fs) st (fold (flight_frame settled targets fpl) fs ?st1)"
    using flew_trans [OF Cons.prems 1] by blast
  then show ?case by simp
qed

lemma target_cell_returns:
  assumes "sample_region_luminance img_gray x y step = Inr lum" and "words \<noteq> []"
  shows "\<exists>res. target_cell be img_gray font_path step font_size base_alpha alpha_boost_dark
           density_scale color words base_font x y g = Inr res"
  using assms by (auto simp: target_cell_def cell_defs split: prod.splits)

lemma targets_row_returns:
  assumes "\<And>x g. x \<in> set xs \<Longrightarrow> \<exists>res. cell x y g = Inr res"
  shows "\<exists>res. targets_row cell xs y targets g = Inr res"
  using assms
proof (induction xs arbitrary: targets g)
  case Nil
  then show ?case by simp
next
  case (Cons x xs)
  obtain o' g' where c: "cell x y g = Inr (o', g')"
    using Cons.prems [of x g] by auto
  have ih: "\<exists>res. targets_row cell xs y ts g' = Inr res" for ts
    using Cons.IH [of ts g'] Cons.prems by simp
  show ?case using c ih by (cases o') simp_all
qed

lemma targets_rows_returns:
  assumes "range0 w step = Inr xs"
    and "\<And>x y g. x \<in> set xs \<Longrightarrow> y \<in> set ys \<Longrightarrow> \<exists>res. cell x y g = Inr res"
  shows "\<exists>res. targets_rows cell w step ys targets g = Inr res"
  using assms(2)
proof (induction ys arbitrary: targets g)
  case Nil
  then show ?case by simp
next
  case (Cons y ys)
  obtain ts g' where r: "targets_row cell xs y targets g = Inr (ts, g')"
    using targets_row_returns [of xs cell y targets g] Cons.prems by fastforce
  have "\<exists>res. targets_rows cell w step ys ts g' = Inr res"
    using Cons.IH [of ts g'] Cons.prems by simp
  then show ?case using r assms(1) by simp
qed

lemma generate_layer_targets_returns:
  assumes "0 < layer_step layer" and "words \<noteq> []"
  shows "\<exists>targets g'. generate_layer_targets be img_gray font_path layer words dm g
           = Inr (targets, g')"
proof -
  obtain ys where ys: "range0 (im_height img_gray) (layer_step layer) = Inr ys"
    using assms(1) by (simp add: range0_def)
  obtain xs where xs: "range0 (im_width img_gray) (layer_step layer) = Inr xs"
    using assms(1) by (simp add: range0_def)
  have cell: "\<exists>res. target_cell be img_gray font_path (layer_step layer) fs ba ab ds col words bf
                  x y g = Inr res"
    if "x \<in> set xs" "y \<in> set ys" for x y g fs ba ab ds col bf
  proof -
    have "0 \<le> x \<and> x < int (im_width img_gray)" using xs that(1) by (rule range0_in_bounds)
    moreover have "0 \<le> y \<and> y < int (im_height img_gray)" using ys that(2) by (rule range0_in_bounds)
    ultimately obtain lum where "sample_region_luminance img_gray x y (layer_step layer) = Inr lum"
      using sample_in_bounds [of x img_gray y "layer_step layer"] assms(1) by auto
    then show ?thesis using assms(2) by (rule target_cell_returns)
  qed
  have "\<exists>res. targets_rows
          (target_cell be img_gray font_path (layer_step layer) (layer_font_size layer)
             (layer_base_alpha layer) (layer_alpha_boost_dark layer)
             (b64 (layer_density_scale layer * dm)) (layer_color layer) words
             (load_font font_path (layer_font_size layer)))
          (im_width img_gray) (layer_step layer) ys [] g = Inr res"
    using xs cell by (rule targets_rows_returns)
  then show ?thesis using ys by (auto simp: generate_layer_targets_def Let_def)
qed

lemma random_offscreen_start_returns: "\<exists>res. random_offscreen_start w h g = Inr res"
  by (simp add: random_offscreen_start_def random_choice_def random_uniform_def random_random_def
      split: prod.splits)

lemma assign_starts_returns: "\<exists>fs g'. assign_starts w h ts g = Inr (fs, g')"
proof (induction ts arbitrary: g)
  case Nil
  then show ?case by simp
next
  case (Cons t ts)
  obtain start g1 where s: "random_offscreen_start w h g = Inr (start, g1)"
    using random_offscreen_start_returns [of w h g] by auto
  obtain fs g2 where a: "assign_starts w h ts g1 = Inr (fs, g2)"
    using Cons.IH [of g1] by auto
  show ?case using s a by simp
qed

lemma flew_canvas_inv:
  assumes "canvas_inv settled st" and "flew settled n st st'"
  shows "canvas_inv settled st'"
proof -
  obtain news ps where f: "heap st' = heap st @ news" "frames st' = frames st @ ps"
      "\<forall>p \<in> set ps. length (heap st) \<le> p \<and> p < length (heap st')
              \<and> (drawn_canvas (heap st ! settled) \<longrightarrow> is_flight_frame (heap st' ! p))"
    using assms(2) unfolding flew_def by blast
  have i: "settled < length (heap st)" "drawn_canvas (heap st ! settled)"
    "\<forall>p \<in> set (frames st). p < length (heap st) \<and> p \<noteq> settled \<and> is_flight_frame (heap st ! p)"
    using assms(1) unfolding canvas_inv_def by auto
  have "\<forall>p \<in> set (frames st'). p < length (heap st') \<and> p \<noteq> settled
            \<and> is_flight_frame (heap st' ! p)"
  proof
    fix p assume "p \<in> set (frames st')"
    then consider "p \<in> set (frames st)" | "p \<in> set ps" using f(2) by auto
    then show "p < length (heap st') \<and> p \<noteq> settled \<and> is_flight_frame (heap st' ! p)"
    proof cases
      case 1
      then show ?thesis using i(3) f(1) by (auto simp: nth_append)
    next
      case 2
      then show ?thesis using f(3) i(1,2) by auto
    qed
  qed
  then show ?thesis using i f(1) by (simp add: canvas_inv_def nth_append)
qed

lemma commit_canvas_inv:
  assumes "canvas_inv settled st"
  shows "canvas_inv settled (fold (commit_glyph settled) targets st)"
proof -
  have i: "settled < length (heap st)" "drawn_canvas (heap st ! settled)"
    "\<forall>p \<in> set (frames st). p < length (heap st) \<and> p \<noteq> settled \<and> is_flight_frame (heap st ! p)"
    using assms unfolding canvas_inv_def by auto
  show ?thesis
    using i by (auto simp: fold_commit [OF i(1)] canvas_inv_def drawn_canvas_fold_text_at)
qed

lemma animate_layer_returns:
  assumes "canvas_inv settled st" and "0 < layer_step layer" and "words \<noteq> []"
  shows "\<exists>st' ps. animate_layer be img_gray font_path words settled fpl layer st = Inr st'
            \<and> canvas_inv settled st' \<and> frames st' = frames st @ ps \<and> length ps = nat fpl"
proof -
  obtain targets g1 where t: "generate_layer_targets be img_gray font_path layer words 1.0
      (an_rng st) = Inr (targets, g1)"
    using generate_layer_targets_returns [OF assms(2,3)] by blast
  obtain fs g2 where a: "assign_starts (im_width img_gray) (im_height img_gray) targets g1
      = Inr (fs, g2)"
    using assign_starts_returns by blast
  let ?st1 = "st\<lparr>an_rng := g2\<rparr>"
  let ?st2 = "fold (flight_frame settled fs fpl) [0..fpl - 1] ?st1"
  let ?st3 = "fold (commit_glyph settled) fs ?st2"
  have i1: "canvas_inv settled ?st1" using assms(1) by (simp add: canvas_inv_def)
  then have "settled < length (heap ?st1)" by (simp add: canvas_inv_def)
  then have fl: "flew settled (length [0..fpl - 1]) ?st1 ?st2" by (rule flight_loop_flew)
  then have i2: "canvas_inv settled ?st2" using i1 flew_canvas_inv by blast
  then have i3: "canvas_inv settled ?st3" by (rule commit_canvas_inv)
  obtain ps where ps: "frames ?st2 = frames ?st1 @ ps" "length ps = length [0..fpl - 1]"
    using fl unfolding flew_def by blast
  have "settled < length (heap ?st2)" using i2 by (simp add: canvas_inv_def)
  then have "frames ?st3 = frames ?st2" by (simp add: fold_commit)
  then have "frames ?st3 = frames st @ ps" "length ps = nat fpl" using ps by simp_all
  moreover have "animate_layer be img_gray font_path words settled fpl layer st = Inr ?st3"
    using t a by (simp add: animate_layer_def Let_def)
  ultimately show ?thesis using i3 by blast
qed

lemma animate_layers_returns:
  assumes "canvas_inv settled st" and "\<forall>l \<in> set layers. 0 < layer_step l" and "words \<noteq> []"
  shows "\<exists>st' ps. animate_layers be img_gray font_path words settled fpl layers st = Inr st'
            \<and> canvas_inv settled st' \<and> frames st' = frames st @ ps
            \<and> length ps = nat fpl * length layers"
  using assms(1,2)
proof (induction layers arbitrary: st)
  case Nil
  then show ?case by simp
next
  case (Cons l layers)
  obtain st1 p1 where 1: "animate_layer be img_gray font_path words settled fpl l st = Inr st1"
      "canvas_inv settled st1" "frames st1 = frames st @ p1" "length p1 = nat fpl"
    using animate_layer_returns [OF Cons.prems(1) _ assms(3), of l be img_gray font_path fpl]
      Cons.prems(2) by auto
  obtain st2 p2 where 2: "animate_layers be img_gray font_path words settled fpl layers st1 = Inr st2"
      "canvas_inv settled st2" "frames st2 = frames st1 @ p2" "length p2 = nat fpl * length layers"
    using Cons.IH [OF 1(2)] Cons.prems(2) by auto
  have "frames st2 = frames st @ (p1 @ p2)" "length (p1 @ p2) = nat fpl * length (l # layers)"
    using 1 2 by simp_all
  then show ?case using 1(1) 2(1,2) by (intro exI [of _ st2] exI [of _ "p1 @ p2"]) simp
qed

lemma fade_frame_faded: "faded 1 st (fade_frame settled original fof i st)"
proof -
  let ?a = "b64 (b64 (real_of_int (i + 1)) / b64 (real_of_int fof))"
  let ?B = "Blend (heap st ! settled) (heap st ! original) ?a"
  let ?r = "max 0 (b64 (1.5 - b64 (1.5 * ?a)))"
  show ?thesis
  proof (cases "?r > 0")
    case True
    then have e: "fade_frame settled original fof i st =
        st\<lparr>heap := heap st @ [?B, GaussianBlur ?r ?B, ConvertP (GaussianBlur ?r ?B)],
           frames := frames st @ [length (heap st) + 2]\<rparr>"
      by (simp add: fade_frame_def Let_def alloc_def nth_append)
    show ?thesis unfolding faded_def e
      apply (rule exI [of _ "[?B, GaussianBlur ?r ?B, ConvertP (GaussianBlur ?r ?B)]"])
      apply (rule exI [of _ "[length (heap st) + 2]"])
      by (simp add: nth_append)
  next
    case False
    then have e: "fade_frame settled original fof i st =
        st\<lparr>heap := heap st @ [?B, ConvertP ?B], frames := frames st @ [length (heap st) + 1]\<rparr>"
      by (simp add: fade_frame_def Let_def alloc_def nth_append)
    show ?thesis unfolding faded_def e
      apply (rule exI [of _ "[?B, ConvertP ?B]"])
      apply (rule exI [of _ "[length (heap st) + 1]"])
      by (simp add: nth_append)
  qed
qed

lemma faded_trans:
  assumes "faded n st st1" and "faded m st1 st2"
  shows "faded (n + m) st st2"
proof -
  obtain n1 p1 where 1: "heap st1 = heap st @ n1" "frames st1 = frames st @ p1" "length p1 = n"
      "\<forall>p \<in> set p1. length (heap st) \<le> p \<and> p < length (heap st1) \<and> is_fade_frame (heap st1 ! p)"
    using assms(1) unfolding faded_def by blast
  obtain n2 p2 where 2: "heap st2 = heap st1 @ n2" "frames st2 = frames st1 @ p2" "length p2 = m"
      "\<forall>p \<in> set p2. length (heap st1) \<le> p \<and> p < length (heap st2) \<and> is_fade_frame (heap st2 ! p)"
    using assms(2) unfolding faded_def by blast
  have "\<forall>p \<in> set (p1 @ p2). length (heap st) \<le> p \<and> p < length (heap st2)
              \<and> is_fade_frame (heap st2 ! p)"
  proof
    fix p assume "p \<in> set (p1 @ p2)"
    then consider "p \<in> set p1" | "p \<in> set p2" by auto
    then show "length (heap st) \<le> p \<and> p < length (heap st2) \<and> is_fade_frame (heap st2 ! p)"
    proof cases
      case 1
      then have a: "length (heap st) \<le> p" "p < length (heap st1)" "is_fade_frame (heap st1 ! p)"
        using \<open>\<forall>p \<in> set p1. _\<close> by auto
      have "heap st2 ! p = heap st1 ! p" using a(2) 2(1) by (simp add: nth_append)
      then show ?thesis using a 2(1) by simp
    next
      case 2
      then show ?thesis using \<open>\<forall>p \<in> set p2. _\<close> \<open>heap st1 = heap st @ n1\<close> by auto
    qed
  qed
  then show ?thesis unfolding faded_def
    apply (intro exI [of _ "n1 @ n2"] exI [of _ "p1 @ p2"])
    using 1 2 by simp
qed

lemma fade_loop_faded:
  "faded (length js) st (fold (fade_frame settled original fof) js st)"
proof (induction js arbitrary: st)
  case Nil
  then show ?case by (simp add: faded_def)
next
  case (Cons j js)
  have "faded (1 + length js) st
          (fold (fade_frame settled original fof) js (fade_frame settled original fof j st))"
    using faded_trans [OF fade_frame_faded Cons.IH] .
  then show ?case by simp
qed

lemma presets_subtle:
  "dict_get get_style_presets ''subtle_soft'' =
     Inr [preset_layer 52 56 20 130 0.5 (0, 0, 0), preset_layer 30 32 30 140 (b64 0.9) (0, 0, 0),
          preset_layer 18 18 40 150 (b64 1.2) (0, 0, 0)]"
  by (simp add: dict_get_def get_style_presets_def)

lemma presets_bold:
  "dict_get get_style_presets ''graphic_bold'' =
     Inr [preset_layer 64 60 40 200 (b64 0.8) (0, 0, 0), preset_layer 32 30 60 190 (b64 1.6) (0, 0, 0),
          preset_layer 16 14 70 190 (b64 1.8) (0, 0, 0)]"
  by (simp add: dict_get_def get_style_presets_def)

lemma accumulate_frames:
  "\<exists>st. accumulate_layers_animation be img_gray font_path background fpl fof g
         = Inr (st, if frames st = [] then None else Some (frames st))
     \<and> length (frames st) = nat fpl * 6 + nat fof
     \<and> (\<forall>k < nat fpl * 6. is_flight_frame (heap st ! (frames st ! k)))
     \<and> (\<forall>k < nat fof. is_fade_frame (heap st ! (frames st ! (nat fpl * 6 + k))))"
proof -
  let ?st0 = "\<lparr>heap = [New (int (im_width img_gray), int (im_height img_gray))
                        (fst background, fst (snd background), snd (snd background), 255)],
               an_rng = g, frames = []\<rparr>"
  let ?layers = "[preset_layer 52 56 20 130 0.5 (0, 0, 0), preset_layer 30 32 30 140 (b64 0.9) (0, 0, 0),
          preset_layer 18 18 40 150 (b64 1.2) (0, 0, 0)] @
          [preset_layer 64 60 40 200 (b64 0.8) (0, 0, 0), preset_layer 32 30 60 190 (b64 1.6) (0, 0, 0),
          preset_layer 16 14 70 190 (b64 1.8) (0, 0, 0)]"
  have i0: "canvas_inv 0 ?st0" by (simp add: canvas_inv_def)
  have steps: "\<forall>l \<in> set ?layers. 0 < layer_step l" by (simp add: preset_layer_def)
  have words: "chinese_words \<noteq> []" by (simp add: chinese_words_def)
  obtain st1 ps1 where 1: "animate_layers be img_gray font_path chinese_words 0 fpl ?layers ?st0
        = Inr st1" "canvas_inv 0 st1" "frames st1 = ps1" "length ps1 = nat fpl * 6"
    using animate_layers_returns [OF i0 steps words, of be img_gray font_path fpl] by auto
  let ?st2 = "snd (alloc Original st1)"
  let ?orig = "length (heap st1)"
  let ?st3 = "fold (fade_frame 0 ?orig fof) [0..fof - 1] ?st2"
  have "faded (length [0..fof - 1]) ?st2 ?st3" by (rule fade_loop_faded)
  then obtain news ps2 where 3: "heap ?st3 = heap ?st2 @ news" "frames ?st3 = frames ?st2 @ ps2"
      "length ps2 = nat fof"
      "\<forall>p \<in> set ps2. length (heap ?st2) \<le> p \<and> p < length (heap ?st3) \<and> is_fade_frame (heap ?st3 ! p)"
    unfolding faded_def by auto
  have fr: "frames ?st3 = ps1 @ ps2" using 3(2) 1(3) by simp
  have run: "accumulate_layers_animation be img_gray font_path background fpl fof g
         = Inr (?st3, if frames ?st3 = [] then None else Some (frames ?st3))"
    using 1(1) by (simp add: accumulate_layers_animation_def presets_subtle presets_bold Let_def
        alloc_def split: prod.splits)
  have fl: "is_flight_frame (heap ?st3 ! (frames ?st3 ! k))" if "k < nat fpl * 6" for k
  proof -
    have "ps1 ! k \<in> set (frames st1)" using that 1(3,4) by simp
    then have "ps1 ! k < length (heap st1)" "is_flight_frame (heap st1 ! (ps1 ! k))"
      using 1(2) unfolding canvas_inv_def by auto
    moreover have "heap ?st3 = heap st1 @ (Original # news)" using 3(1) by simp
    ultimately show ?thesis using fr that 1(4) by (simp add: nth_append)
  qed
  have fa: "is_fade_frame (heap ?st3 ! (frames ?st3 ! (nat fpl * 6 + k)))" if "k < nat fof" for k
  proof -
    have "ps2 ! k \<in> set ps2" using that 3(3) by simp
    then show ?thesis using 3(4) fr 1(4) by (simp add: nth_append)
  qed
  have "length (frames ?st3) = nat fpl * 6 + nat fof" using fr 1(4) 3(3) by simp
  then show ?thesis using run fl fa by blast
qed

text \<open>
  C2: for all inputs with frames\_per\_layer \<ge> 0 and final\_original\_frames \<ge> 0, the
  animation returns, the layers are the three of \<^verbatim>\<open>subtle_soft\<close> followed by the three
  of \<^verbatim>\<open>graphic_bold\<close>, and the frame list holds exactly
  frames\_per\_layer * 6 + final\_original\_frames frames: first the flight frames, then
  the fade frames. The list is what is handed to the encoder unless it is empty.
\<close>

theorem animation_frame_count:
  assumes "0 \<le> frames_per_layer" and "0 \<le> final_original_frames"
  shows "\<exists>st subtle_layers bold_layers.
           dict_get get_style_presets ''subtle_soft'' = Inr subtle_layers
         \<and> dict_get get_style_presets ''graphic_bold'' = Inr bold_layers
         \<and> accumulate_layers_animation be img_gray font_path background frames_per_layer
              final_original_frames g
              = Inr (st, if frames st = [] then None else Some (frames st))
         \<and> int (length (frames st))
              = frames_per_layer * int (length (subtle_layers @ bold_layers)) + final_original_frames
         \<and> (\<forall>k < nat (frames_per_layer * int (length (subtle_layers @ bold_layers))).
               is_flight_frame (heap st ! (frames st ! k)))
         \<and> (\<forall>k < nat final_original_frames.
               is_fade_frame (heap st !
                 (frames st ! (nat (frames_per_layer * int (length (subtle_layers @ bold_layers))) + k))))"
proof -
  obtain st where st: "accumulate_layers_animation be img_gray font_path background
         frames_per_layer final_original_frames g
         = Inr (st, if frames st = [] then None else Some (frames st))"
      "length (frames st) = nat frames_per_layer * 6 + nat final_original_frames"
      "\<forall>k < nat frames_per_layer * 6. is_flight_frame (heap st ! (frames st ! k))"
      "\<forall>k < nat final_original_frames.
          is_fade_frame (heap st ! (frames st ! (nat frames_per_layer * 6 + k)))"
    using accumulate_frames [of be img_gray font_path background frames_per_layer
        final_original_frames g] by blast
  have n: "nat (frames_per_layer * 6) = nat frames_per_layer * 6"
    using assms(1) by (simp add: nat_mult_distrib)
  have "int (length (frames st)) = frames_per_layer * 6 + final_original_frames"
    using st(2) assms by simp
  then show ?thesis
    using st(1,3,4) n presets_subtle presets_bold
    by (intro exI [of _ st]
          exI [of _ "[preset_layer 52 56 20 130 0.5 (0, 0, 0),
            preset_layer 30 32 30 140 (b64 0.9) (0, 0, 0), preset_layer 18 18 40 150 (b64 1.2) (0, 0, 0)]"]
          exI [of _ "[preset_layer 64 60 40 200 (b64 0.8) (0, 0, 0),
            preset_layer 32 30 60 190 (b64 1.6) (0, 0, 0), preset_layer 16 14 70 190 (b64 1.8) (0, 0, 0)]"])
      simp
qed

theorem animation_frame_count_witness:
  "\<exists>st. accumulate_layers_animation example_backend black1 ''f.ttf'' (255, 255, 255) 2 3
            (\<lambda>n. 1 / 2) = Inr (st, Some (frames st))
        \<and> length (frames st) = 15"
proof -
  obtain st where st: "accumulate_layers_animation example_backend black1 ''f.ttf''
        (255, 255, 255) 2 3 (\<lambda>n. 1 / 2)
         = Inr (st, if frames st = [] then None else Some (frames st))"
      "int (length (frames st)) = 15"
    using animation_frame_count [of 2 3 example_backend black1 "''f.ttf''" "(255, 255, 255)"
        "\<lambda>n. 1 / 2"]
    by (auto simp: presets_subtle presets_bold)
  have "frames st \<noteq> []" using st(2) by auto
  then show ?thesis using st by auto
qed

text \<open>
  The test of the blur radius is made on the binary64 values: on frame 10 of 12 the
  exact radius 1.2 * (1 - 11/12) is 0.1, the float operations give
  0.10000000000000005, which exceeds the binary64 number of 0.1, and the frame is
  blurred.
\<close>

lemma blur_radius_frame_10_of_12:
  "b64 (b64 1.2 * b64 (1 - t_norm 10 12)) > b64 0.1"
proof -
  have t: "b64 (11 / 12) = 8256599316845909 / 9007199254740992"
    by (subst b64_eval [of "- 1"]) (simp_all add: round_half_even_def)
  have s: "b64 (1 - 8256599316845909 / 9007199254740992) = 750599937895083 / 9007199254740992"
    by ((simp)?, subst b64_eval [of "- 4"]) (simp_all add: round_half_even_def)
  have r: "b64 (5404319552844595 / 4503599627370496 * (750599937895083 / 9007199254740992)) = 7205759403792797 / 72057594037927936"
    by ((simp)?, subst b64_eval [of "- 4"]) (simp_all add: round_half_even_def)
  have c: "b64 0.1 = 3602879701896397 / 36028797018963968"
    by (subst b64_eval [of "- 4"]) (simp_all add: round_half_even_def)
  have n: "t_norm 10 12 = 8256599316845909 / 9007199254740992"
    using t by (simp add: t_norm_def)
  show ?thesis by (simp only: n b64_1_2 s r c)
qed

section \<open>The settled canvas\<close>

lemma glyph_truncate_extend: "glyph.truncate (glyph.extend t ext) = t"
  by (cases t) (simp add: glyph.truncate_def glyph.extend_def)

lemma assign_starts_truncate:
  "assign_starts w h ts g = Inr (fs, g') \<Longrightarrow> map glyph.truncate fs = ts"
proof (induction ts arbitrary: g fs g')
  case Nil
  then show ?case by simp
next
  case (Cons t ts)
  obtain start g1 where s: "random_offscreen_start w h g = Inr (start, g1)"
    using random_offscreen_start_returns [of w h g] by auto
  obtain fs' g2 where a: "assign_starts w h ts g1 = Inr (fs', g2)"
    using assign_starts_returns [of w h ts g1] by auto
  have "fs = glyph.extend t (flying.fields start) # fs'"
    using Cons.prems s a by simp
  moreover have "map glyph.truncate fs' = ts" using a by (rule Cons.IH)
  ultimately show ?case by (simp add: glyph_truncate_extend)
qed

lemma animate_layer_unfold:
  assumes "animate_layer be img_gray font_path words settled fpl layer st = Inr st'"
  shows "\<exists>targets g1 glyphs g2.
           generate_layer_targets be img_gray font_path layer words 1.0 (an_rng st)
             = Inr (targets, g1)
         \<and> assign_starts (im_width img_gray) (im_height img_gray) targets g1 = Inr (glyphs, g2)
         \<and> st' = fold (commit_glyph settled) glyphs
                   (fold (flight_frame settled glyphs fpl) [0..fpl - 1] (st\<lparr>an_rng := g2\<rparr>))"
  using assms by (auto simp: animate_layer_def Let_def split: sum.splits prod.splits)

text \<open>
  C8: let the settled canvas be an object of the store. A flight frame is drawn on a
  new object that starts as a copy of the settled canvas; generating any number of
  flight frames leaves every object that existed before, the settled canvas and the
  earlier frames among them, as it was, and appends only new objects to the frame
  list. The commit changes the settled canvas alone, into the settled canvas with the
  glyphs drawn at their target positions. One pass of the layer loop that returns has
  planned the targets of the layer with \<^verbatim>\<open>generate_layer_targets\<close> and given each a
  start position; after all its flight frames the settled canvas and every earlier
  object are still as they were before the pass; the pass ends with the commit of
  these glyphs, after which the settled canvas is the one from before the pass with the
  glyphs of the layer drawn at their target positions, and every other object,
  the frames of the flight included, and the frame list are as the flight left them.
\<close>

theorem settled_canvas_changes_only_at_commit:
  assumes "settled < length (heap st)"
  shows "heap (flight_frame settled targets fpl f st) ! length (heap st)
           = flight_picture targets fpl f (heap st ! settled)
       \<and> (\<forall>a < length (heap st). heap (fold (flight_frame settled targets fpl) fs st) ! a = heap st ! a)
       \<and> (\<exists>ps. frames (fold (flight_frame settled targets fpl) fs st) = frames st @ ps
                \<and> length ps = length fs \<and> (\<forall>p \<in> set ps. length (heap st) \<le> p))
       \<and> fold (commit_glyph settled) targets st
           = st\<lparr>heap := (heap st)[settled :=
                  fold (\<lambda>g. text_at (glyph_target_pos g) g) targets (heap st ! settled)]\<rparr>
       \<and> (animate_layer be img_gray font_path words settled fpl layer st = Inr st' \<longrightarrow>
            (\<exists>planned g1 glyphs g2.
                generate_layer_targets be img_gray font_path layer words 1.0 (an_rng st)
                  = Inr (planned, g1)
              \<and> assign_starts (im_width img_gray) (im_height img_gray) planned g1
                  = Inr (glyphs, g2)
              \<and> map glyph.truncate glyphs = planned
              \<and> (let flown = fold (flight_frame settled glyphs fpl) [0..fpl - 1]
                                (st\<lparr>an_rng := g2\<rparr>)
                 in (\<forall>a < length (heap st). heap flown ! a = heap st ! a)
                  \<and> st' = fold (commit_glyph settled) glyphs flown
                  \<and> heap st' = (heap flown)[settled :=
                       fold (\<lambda>g. text_at (glyph_target_pos g) g) glyphs (heap st ! settled)]
                  \<and> frames st' = frames flown)))"
proof -
  have frame: "heap (flight_frame settled targets fpl f st) ! length (heap st)
           = flight_picture targets fpl f (heap st ! settled)"
    using flight_frame_eq [OF assms, of targets fpl f] by (simp add: Let_def nth_append)
  have loop: "flew settled (length fs) st' (fold (flight_frame settled targets' fpl) fs st')"
    if "settled < length (heap st')" for st' fs targets'
    using that by (rule flight_loop_flew)
  obtain news ps where l: "heap (fold (flight_frame settled targets fpl) fs st) = heap st @ news"
      "frames (fold (flight_frame settled targets fpl) fs st) = frames st @ ps"
      "length ps = length fs" "\<forall>p \<in> set ps. length (heap st) \<le> p"
    using loop [where st' = st and fs = fs and targets' = targets, OF assms]
    unfolding flew_def by blast
  have old: "\<forall>a < length (heap st). heap (fold (flight_frame settled targets fpl) fs st) ! a
      = heap st ! a"
    using l(1) by (simp add: nth_append)
  have layer: "\<exists>planned g1 glyphs g2.
                generate_layer_targets be img_gray font_path layer words 1.0 (an_rng st)
                  = Inr (planned, g1)
              \<and> assign_starts (im_width img_gray) (im_height img_gray) planned g1
                  = Inr (glyphs, g2)
              \<and> map glyph.truncate glyphs = planned
              \<and> (let flown = fold (flight_frame settled glyphs fpl) [0..fpl - 1]
                                (st\<lparr>an_rng := g2\<rparr>)
                 in (\<forall>a < length (heap st). heap flown ! a = heap st ! a)
                  \<and> st' = fold (commit_glyph settled) glyphs flown
                  \<and> heap st' = (heap flown)[settled :=
                       fold (\<lambda>g. text_at (glyph_target_pos g) g) glyphs (heap st ! settled)]
                  \<and> frames st' = frames flown)"
    if a: "animate_layer be img_gray font_path words settled fpl layer st = Inr st'"
  proof -
    obtain planned g1 glyphs g2 where
      p: "generate_layer_targets be img_gray font_path layer words 1.0 (an_rng st)
            = Inr (planned, g1)"
      and s: "assign_starts (im_width img_gray) (im_height img_gray) planned g1 = Inr (glyphs, g2)"
      and u: "st' = fold (commit_glyph settled) glyphs
           (fold (flight_frame settled glyphs fpl) [0..fpl - 1] (st\<lparr>an_rng := g2\<rparr>))"
      using animate_layer_unfold [OF a] by blast
    let ?st1 = "st\<lparr>an_rng := g2\<rparr>"
    let ?st2 = "fold (flight_frame settled glyphs fpl) [0..fpl - 1] ?st1"
    have s1: "settled < length (heap ?st1)" using assms by simp
    obtain news2 where h2: "heap ?st2 = heap st @ news2"
      using loop [where st' = ?st1 and fs = "[0..fpl - 1]" and targets' = glyphs, OF s1]
      unfolding flew_def by auto
    then have s2: "settled < length (heap ?st2)" using assms by simp
    have same: "\<forall>a < length (heap st). heap ?st2 ! a = heap st ! a"
      using h2 by (simp add: nth_append)
    have c: "st' = ?st2\<lparr>heap := (heap ?st2)[settled :=
        fold (\<lambda>g. text_at (glyph_target_pos g) g) glyphs (heap ?st2 ! settled)]\<rparr>"
      unfolding u by (rule fold_commit [OF s2])
    have h3: "heap st' = (heap ?st2)[settled :=
        fold (\<lambda>g. text_at (glyph_target_pos g) g) glyphs (heap st ! settled)]"
      using c same assms by simp
    have f3: "frames st' = frames ?st2" using c by simp
    have t: "map glyph.truncate glyphs = planned" using s by (rule assign_starts_truncate)
    show ?thesis
      using p s t same u h3 f3 by (auto simp: Let_def)
  qed
  show ?thesis using frame old l(2,3,4) fold_commit [OF assms, of targets] layer by blast
qed

text \<open>
  The third layer of \<^verbatim>\<open>subtle_soft\<close> on the black pixel, with every draw 0.5: the
  density is 1.2, the one cell gets a glyph, and after the pass the settled canvas is
  the blank canvas with that one glyph drawn on it.
\<close>

lemma generate_layer_targets_1x1:
  assumes "im_width img = 1" and "im_height img = 1" and "0 < layer_step layer"
    and "target_cell be img font_path (layer_step layer) (layer_font_size layer)
           (layer_base_alpha layer) (layer_alpha_boost_dark layer)
           (b64 (layer_density_scale layer * dm)) (layer_color layer) words
           (load_font font_path (layer_font_size layer)) 0 0 g = Inr (Some t, g')"
  shows "generate_layer_targets be img font_path layer words dm g = Inr ([t], g')"
proof -
  have "(1 + layer_step layer - 1) div layer_step layer = 1" using assms(3) by simp
  then have r: "range0 (Suc 0) (layer_step layer) = Inr [0]"
    using assms(3) by (simp add: range0_def)
  show ?thesis
    using assms(1,2,4) by (simp add: generate_layer_targets_def Let_def r)
qed

theorem settled_canvas_changes_only_at_commit_witness:
  "\<exists>st' pos w f fill.
       animate_layer example_backend black1 ''f.ttf'' [[65]] 0 2
         (preset_layer 18 18 40 150 (b64 1.2) (0, 0, 0)) blank_anim = Inr st'
     \<and> heap st' ! 0 = Text (New (1, 1) (255, 255, 255, 255)) pos w f fill AnchorDefault"
proof -
  let ?layer = "preset_layer 18 18 40 150 (b64 1.2) (0, 0, 0)"
  have s: "0 < length (heap blank_anim)" by (simp add: blank_anim_def)
  have inv: "canvas_inv 0 blank_anim" by (simp add: canvas_inv_def blank_anim_def)
  obtain st' where run: "animate_layer example_backend black1 ''f.ttf'' [[65]] 0 2 ?layer
      blank_anim = Inr st'"
    using animate_layer_returns [OF inv, of ?layer "[[65]]" example_backend black1 "''f.ttf''" 2]
    by (auto simp: preset_layer_def)
  obtain planned g1 glyphs g2 where
    p: "generate_layer_targets example_backend black1 ''f.ttf'' ?layer [[65]] 1.0
          (an_rng blank_anim) = Inr (planned, g1)"
    and t: "map glyph.truncate glyphs = planned"
    and h: "heap st' = (heap (fold (flight_frame 0 glyphs 2) [0..2 - 1]
                (blank_anim\<lparr>an_rng := g2\<rparr>)))[0 :=
              fold (\<lambda>g. text_at (glyph_target_pos g) g) glyphs (heap blank_anim ! 0)]"
    and same: "\<forall>a < length (heap blank_anim).
         heap (fold (flight_frame 0 glyphs 2) [0..2 - 1] (blank_anim\<lparr>an_rng := g2\<rparr>)) ! a
           = heap blank_anim ! a"
    using settled_canvas_changes_only_at_commit [OF s, THEN conjunct2, THEN conjunct2,
        THEN conjunct2, THEN conjunct2, rule_format, OF run]
    unfolding Let_def by blast
  have sb: "sample_region_luminance black1 0 0 18 = Inr 0" by (simp add: sample_black1)
  have dense: "1 / 2 \<le> b64 1.2" using b64_mono [of "1 / 2" "1.2"] by simp
  have "\<exists>t g'. target_cell example_backend black1 ''f.ttf'' 18 18 40 150 (b64 (b64 1.2 * 1.0))
      (0, 0, 0) [[65]] (load_font ''f.ttf'' 18) 0 0 (\<lambda>n. 1 / 2) = Inr (Some t, g')"
    using dense by (intro target_cell_places [OF sb]) (simp_all add: density_black)
  then obtain t1 g' where c: "target_cell example_backend black1 ''f.ttf'' 18 18 40 150
      (b64 (b64 1.2 * 1.0)) (0, 0, 0) [[65]] (load_font ''f.ttf'' 18) 0 0 (\<lambda>n. 1 / 2)
      = Inr (Some t1, g')"
    by blast
  have "generate_layer_targets example_backend black1 ''f.ttf'' ?layer [[65]] 1.0
          (an_rng blank_anim) = Inr ([t1], g')"
    using c by (intro generate_layer_targets_1x1)
      (simp_all add: black1_def preset_layer_def blank_anim_def)
  then have "planned = [t1]" using p by simp
  then obtain gl where gl: "glyphs = [gl]" using t by (cases glyphs) auto
  have len: "0 < length (heap (fold (flight_frame 0 glyphs 2) [0..2 - 1]
      (blank_anim\<lparr>an_rng := g2\<rparr>)))"
    using flight_loop_flew [of 0 "blank_anim\<lparr>an_rng := g2\<rparr>" "[0..2 - 1]" glyphs 2] s
    unfolding flew_def by auto
  have "heap st' ! 0 = text_at (glyph_target_pos gl) gl (New (1, 1) (255, 255, 255, 255))"
    using h len by (simp add: gl blank_anim_def)
  then show ?thesis using run unfolding text_at_def by blast
qed

section \<open>The interpolation of a flight frame\<close>

lemma t_norm_last:
  assumes "1 \<le> frames_per_layer"
  shows "t_norm (frames_per_layer - 1) frames_per_layer = 1"
proof -
  have "1 \<le> b64 (real_of_int frames_per_layer)"
    using assms by (intro b64_ge_1) simp
  then show ?thesis by (simp add: t_norm_def)
qed

text \<open>
  The coordinates of the second glyph are values of the code: its target is the binary64
  value of \<^verbatim>\<open>x + step / 2 + (random.random() - 0.5) * 2 * step * 0.4\<close> for x = 0, step 18
  and the draw 7/8, and its start is returned by \<^verbatim>\<open>random_offscreen_start(800, 600)\<close> for
  the draws 0 (the left side), 1/4 and 1/4.
\<close>

lemma drifting_glyph_target:
  "b64 (b64 (real_of_int 0 + b64 (real_of_int 18 / 2))
        + b64 (b64 (b64 (b64 (7 / 8 - 0.5) * 2) * b64 (real_of_int 18)) * b64 0.4))
     = fst (glyph_target_pos drifting_glyph)"
proof -
  have r0: "b64 (3 / 8) = 3 / 8"
    by (subst b64_eval [of "- 2"]) (simp_all add: round_half_even_def)
  have r1: "b64 (3 / 4) = 3 / 4"
    by (subst b64_eval [of "- 1"]) (simp_all add: round_half_even_def)
  have r2: "b64 (27 / 2) = 27 / 2"
    by (subst b64_eval [of 3]) (simp_all add: round_half_even_def)
  have r3: "b64 (2 / 5) = 3602879701896397 / 9007199254740992"
    by (subst b64_eval [of "- 2"]) (simp_all add: round_half_even_def)
  have r4: "b64 (97277751951202719 / 18014398509481984) = 3039929748475085 / 562949953421312"
    by (subst b64_eval [of 2]) (simp_all add: round_half_even_def)
  have r5: "b64 (8106479329266893 / 562949953421312) = 8106479329266893 / 562949953421312"
    by (subst b64_eval [of 3]) (simp_all add: round_half_even_def)
  show ?thesis by (simp add: drifting_glyph_def r0 r1 r2 r3 r4 r5)
qed

lemma drifting_glyph_start:
  "\<exists>g'. random_offscreen_start 800 600 (\<lambda>n. if n = 0 then 0 else 1 / 4)
          = Inr (glyph_start_pos drifting_glyph, g')"
proof -
  have r0: "b64 (1 / 10) = 3602879701896397 / 36028797018963968"
    by (subst b64_eval [of "- 4"]) (simp_all add: round_half_even_def)
  have r1: "b64 (14411518807585587 / 36028797018963968) = 3602879701896397 / 9007199254740992"
    by (subst b64_eval [of "- 2"]) (simp_all add: round_half_even_def)
  have r2: "b64 (3602879701896397 / 36028797018963968) = 3602879701896397 / 36028797018963968"
    by (subst b64_eval [of "- 4"]) (simp_all add: round_half_even_def)
  have r3: "b64 (3602879701896397 / 18014398509481984) = 3602879701896397 / 18014398509481984"
    by (subst b64_eval [of "- 3"]) (simp_all add: round_half_even_def)
  have r4: "b64 (90071992547409925 / 562949953421312) = 160"
    by (subst b64_eval [of 7]) (simp_all add: round_half_even_def)
  show ?thesis
    by (simp add: random_offscreen_start_def random_choice_def random_uniform_def
        random_random_def drifting_glyph_def r0 r1 r2 r3 r4)
qed

text \<open>
  C3, as stated, fails on the last flight frame. With two frames per layer, the frame 1
  has t = 1.0. For the glyph that starts at (-160, 150) and has the target 14.4 on both
  axes, the difference target - start is rounded on each axis, and the center
  start + (target - start) * 1.0 is 14.400000000000006 on both axes, not the target.
\<close>

theorem flight_center_misses_target:
  "t_norm 1 2 = 1
   \<and> glyph_target_pos drifting_glyph
       = (8106479329266893 / 562949953421312, 8106479329266893 / 562949953421312)
   \<and> flight_center (t_norm 1 2) drifting_glyph
       = (506654958079181 / 35184372088832, 506654958079181 / 35184372088832)
   \<and> flight_center (t_norm 1 2) drifting_glyph \<noteq> glyph_target_pos drifting_glyph"
proof -
  have t: "t_norm 1 2 = 1" using t_norm_last [of 2] by simp
  have r0: "b64 (98178471876676813 / 562949953421312) = 6136154492292301 / 35184372088832"
    by (subst b64_eval [of 7]) (simp_all add: round_half_even_def)
  have r1: "b64 (6136154492292301 / 35184372088832) = 6136154492292301 / 35184372088832"
    by (subst b64_eval [of 7]) (simp_all add: round_half_even_def)
  have r2: "b64 (506654958079181 / 35184372088832) = 506654958079181 / 35184372088832"
    by (subst b64_eval [of 3]) (simp_all add: round_half_even_def)
  have r3: "b64 (76336013683929907 / 562949953421312) = 4771000855245619 / 35184372088832"
    by (subst b64_eval [of 7]) (simp_all add: round_half_even_def)
  have r4: "b64 (4771000855245619 / 35184372088832) = 4771000855245619 / 35184372088832"
    by (subst b64_eval [of 7]) (simp_all add: round_half_even_def)
  have "flight_center 1 drifting_glyph
      = (506654958079181 / 35184372088832, 506654958079181 / 35184372088832)"
    by (simp add: flight_center_def drifting_glyph_def r0 r1 r2 r3 r4)
  then show ?thesis using t by (simp add: drifting_glyph_def)
qed

text \<open>
  C3, amended: for every glyph and every frames\_per\_layer \<ge> 1, the center of the
  glyph on frame f is, on each axis, start + (target - start) * t in binary64
  arithmetic, each of the three operations rounded to nearest, with
  t = (f + 1) / frames\_per\_layer rounded as well; the glyph is drawn on the frame with
  this center. On the last flight frame t is exactly 1 and the center is
  start + (target - start) with both operations rounded: it is the target on an axis
  where the target is a binary64 number and target - start is computed without
  rounding, and need not be the target otherwise.
\<close>

theorem flight_center_binary64:
  assumes "1 \<le> frames_per_layer"
  shows "flight_center (t_norm f frames_per_layer) glyph =
           (b64 (fst (glyph_start_pos glyph)
                 + b64 (b64 (fst (glyph_target_pos glyph) - fst (glyph_start_pos glyph))
                        * b64 (b64 (real_of_int (f + 1)) / b64 (real_of_int frames_per_layer)))),
            b64 (snd (glyph_start_pos glyph)
                 + b64 (b64 (snd (glyph_target_pos glyph) - snd (glyph_start_pos glyph))
                        * b64 (b64 (real_of_int (f + 1)) / b64 (real_of_int frames_per_layer)))))
       \<and> draw_flying_glyph frame_rgba (t_norm f frames_per_layer) glyph st =
           st\<lparr>heap := (heap st)[frame_rgba :=
                 text_at (flight_center (t_norm f frames_per_layer) glyph) glyph
                   (heap st ! frame_rgba)]\<rparr>
       \<and> t_norm (frames_per_layer - 1) frames_per_layer = 1
       \<and> flight_center (t_norm (frames_per_layer - 1) frames_per_layer) glyph =
           (b64 (fst (glyph_start_pos glyph)
                 + b64 (fst (glyph_target_pos glyph) - fst (glyph_start_pos glyph))),
            b64 (snd (glyph_start_pos glyph)
                 + b64 (snd (glyph_target_pos glyph) - snd (glyph_start_pos glyph))))
       \<and> (b64 (fst (glyph_target_pos glyph)) = fst (glyph_target_pos glyph)
            \<and> b64 (fst (glyph_target_pos glyph) - fst (glyph_start_pos glyph))
                = fst (glyph_target_pos glyph) - fst (glyph_start_pos glyph) \<longrightarrow>
          fst (flight_center (t_norm (frames_per_layer - 1) frames_per_layer) glyph)
            = fst (glyph_target_pos glyph))
       \<and> (b64 (snd (glyph_target_pos glyph)) = snd (glyph_target_pos glyph)
            \<and> b64 (snd (glyph_target_pos glyph) - snd (glyph_start_pos glyph))
                = snd (glyph_target_pos glyph) - snd (glyph_start_pos glyph) \<longrightarrow>
          snd (flight_center (t_norm (frames_per_layer - 1) frames_per_layer) glyph)
            = snd (glyph_target_pos glyph))"
proof -
  have 1: "t_norm (frames_per_layer - 1) frames_per_layer = 1"
    using assms by (rule t_norm_last)
  have c: "flight_center t glyph =
           (b64 (fst (glyph_start_pos glyph)
                 + b64 (b64 (fst (glyph_target_pos glyph) - fst (glyph_start_pos glyph)) * t)),
            b64 (snd (glyph_start_pos glyph)
                 + b64 (b64 (snd (glyph_target_pos glyph) - snd (glyph_start_pos glyph)) * t)))"
    for t
    by (simp add: flight_center_def split: prod.splits)
  have last: "flight_center (t_norm (frames_per_layer - 1) frames_per_layer) glyph =
           (b64 (fst (glyph_start_pos glyph)
                 + b64 (fst (glyph_target_pos glyph) - fst (glyph_start_pos glyph))),
            b64 (snd (glyph_start_pos glyph)
                 + b64 (snd (glyph_target_pos glyph) - snd (glyph_start_pos glyph))))"
    unfolding 1 c by simp
  have x: "fst (flight_center (t_norm (frames_per_layer - 1) frames_per_layer) glyph)
            = fst (glyph_target_pos glyph)"
    if "b64 (fst (glyph_target_pos glyph)) = fst (glyph_target_pos glyph)"
      "b64 (fst (glyph_target_pos glyph) - fst (glyph_start_pos glyph))
         = fst (glyph_target_pos glyph) - fst (glyph_start_pos glyph)"
    unfolding last using that by simp
  have y: "snd (flight_center (t_norm (frames_per_layer - 1) frames_per_layer) glyph)
            = snd (glyph_target_pos glyph)"
    if "b64 (snd (glyph_target_pos glyph)) = snd (glyph_target_pos glyph)"
      "b64 (snd (glyph_target_pos glyph) - snd (glyph_start_pos glyph))
         = snd (glyph_target_pos glyph) - snd (glyph_start_pos glyph)"
    unfolding last using that by simp
  show ?thesis
    using c [of "t_norm f frames_per_layer"] 1 last x y
      draw_flying_glyph_eq [of frame_rgba "t_norm f frames_per_layer" glyph st]
    by (simp add: t_norm_def)
qed

text \<open>
  The glyph that flies from (-100, 30) to (25, 40) in two frames is at (-37.5, 35) on
  the first frame and at its target on the second.
\<close>

theorem flight_center_binary64_witness:
  "t_norm 1 2 = 1
   \<and> flight_center (t_norm 0 2) settling_glyph = (- 37.5, 35)
   \<and> flight_center (t_norm 1 2) settling_glyph = (25, 40)"
proof -
  note th = flight_center_binary64 [of 2 _ settling_glyph]
  have h: "b64 (125 / 2) = 125 / 2" "b64 (75 / 2) = 75 / 2"
    using b64_dyadic [of 125 "- 1"] b64_dyadic [of 75 "- 1"] by simp_all
  have 1: "t_norm 1 2 = 1" using th [of 1] by simp
  have "flight_center (t_norm 0 2) settling_glyph = (- 37.5, 35)"
    using th [of 0, THEN conjunct1] by (simp add: settling_glyph_def h)
  moreover have "flight_center (t_norm 1 2) settling_glyph = (25, 40)"
    using th [of 1, THEN conjunct2, THEN conjunct2, THEN conjunct2, THEN conjunct1]
    by (simp add: settling_glyph_def)
  ultimately show ?thesis using 1 by simp
qed

end
